theory Spec2Isabelle
  imports Main
begin

section \<open>Python values and built-ins used by downloader.py\<close>

text \<open>
  Exceptions that the statements of downloader.py can raise. \<open>sys.exit(n)\<close> raises
  \<open>SystemExit\<close> with the argument it was given (\<open>None\<close> for \<open>sys.exit()\<close>).
  A function that can raise returns the state it reached together with \<open>Inl\<close> of the
  exception, or \<open>Inr\<close> of its value. Transport-level failures of the HTTP client
  and the two-second sleep after a download are outside the model.
\<close>

datatype py_exc =
    SystemExit "int option"
  | KeyError string
  | ValueError
  | AttributeError
  | EOFError
  | JSONDecodeError
  | OverflowError
  | IsADirectoryError

text \<open>
  \<open>str.isnumeric\<close> and \<open>int(str)\<close> are Python's, not the repository's: the model takes
  them as parameters (\<open>None\<close> is the \<open>ValueError\<close> of \<open>int\<close>), so every theorem holds
  for whatever the interpreter's versions do. \<open>ascii_builtins\<close> is the instance on
  plain decimal strings that the concrete examples use.
\<close>

record builtins =
  str_isnumeric :: "string \<Rightarrow> bool"
  py_int :: "string \<Rightarrow> int option"

definition is_digit :: "char \<Rightarrow> bool" where
  "is_digit c = ((48::nat) \<le> of_char c \<and> (of_char c :: nat) \<le> 57)"

definition digits_value :: "string \<Rightarrow> nat" where
  "digits_value s = foldl (\<lambda>acc c. 10 * acc + (of_char c - 48)) 0 s"

definition ascii_builtins :: builtins where
  "ascii_builtins =
     \<lparr> str_isnumeric = (\<lambda>s. s \<noteq> [] \<and> list_all is_digit s),
       py_int = (\<lambda>s. if s \<noteq> [] \<and> list_all is_digit s then Some (int (digits_value s)) else None) \<rparr>"

text \<open>The decimal text of an integer, as an f-string or \<open>str\<close> prints it.\<close>

definition digit_char :: "nat \<Rightarrow> char" where
  "digit_char d = char_of (48 + d)"

fun str_nat :: "nat \<Rightarrow> string" where
  "str_nat n = (if n < 10 then [digit_char n] else str_nat (n div 10) @ [digit_char (n mod 10)])"

declare str_nat.simps [simp del]

definition str_int :: "int \<Rightarrow> string" where
  "str_int i = (if i < 0 then CHR ''-'' # str_nat (nat (- i)) else str_nat (nat i))"

text \<open>\<open>str.center(width, fillchar)\<close>: CPython puts the extra fill character on the left
  only when both the padding and the width are odd.\<close>

definition center :: "string \<Rightarrow> nat \<Rightarrow> char \<Rightarrow> string" where
  "center s width fillchar =
     (if width \<le> length s then s
      else let marg = width - length s;
               left = marg div 2 + (if odd marg \<and> odd width then 1 else 0)
           in replicate left fillchar @ s @ replicate (marg - left) fillchar)"

text \<open>\<open>os.path.join\<close> of two components on a POSIX system.\<close>

definition os_path_join :: "string \<Rightarrow> string \<Rightarrow> string" where
  "os_path_join a b =
     (if b \<noteq> [] \<and> hd b = CHR ''/'' then b
      else if a = [] \<or> last a = CHR ''/'' then a @ b
      else a @ ''/'' @ b)"

text \<open>A Python dict with string keys, as the association list of its items.\<close>

fun dict_set :: "(string \<times> string) list \<Rightarrow> string \<Rightarrow> string \<Rightarrow> (string \<times> string) list" where
  "dict_set [] k v = [(k, v)]"
| "dict_set ((k', v') # d) k v = (if k' = k then (k, v) # d else (k', v') # dict_set d k v)"

text \<open>\<open>a / b\<close> on integers raises \<open>OverflowError\<close> when the correctly rounded quotient
  is beyond the largest double, that is from \<open>2^1024 - 2^970\<close> on.\<close>

definition true_div_overflows :: "int \<Rightarrow> int \<Rightarrow> bool" where
  "true_div_overflows a b = (\<bar>a\<bar> \<ge> b * (2 ^ 1024 - 2 ^ 970))"

section \<open>Module constants\<close>

definition DOWNLOAD_PATH :: string where
  "DOWNLOAD_PATH = ''.'' @ ''/Downloads''"

definition HOME_DIR :: "string \<Rightarrow> string" where
  "HOME_DIR USERPROFILE = os_path_join USERPROFILE ''.osu-beatmap-downloader''"

definition CREDS_FILEPATH :: "string \<Rightarrow> string" where
  "CREDS_FILEPATH USERPROFILE = os_path_join (HOME_DIR USERPROFILE) ''credentials.json''"

text \<open>The character class of the regular expression \<open>ILLEGAL_CHARS\<close>:
  \<open>< > : " / \ | ? *\<close>.\<close>

definition ILLEGAL_CHARS :: "char list" where
  "ILLEGAL_CHARS =
     [CHR ''<'', CHR ''>'', CHR '':'', CHR 0x22, CHR ''/'', CHR 0x5C, CHR ''|'', CHR ''?'', CHR ''*'']"

definition ILLEGAL_CHARS_sub :: "string \<Rightarrow> string" where
  "ILLEGAL_CHARS_sub s = map (\<lambda>c. if c \<in> set ILLEGAL_CHARS then CHR ''_'' else c) s"

definition OSU_URL :: string where
  "OSU_URL = ''https://osu.ppy.sh/home''"

definition OSU_SESSION_URL :: string where
  "OSU_SESSION_URL = ''https://osu.ppy.sh/session''"

definition OSU_SEARCH_URL :: string where
  "OSU_SEARCH_URL = ''https://osu.ppy.sh/beatmapsets/search''"

text \<open>\<open>requests.codes.ok\<close>.\<close>

definition codes_ok :: int where
  "codes_ok = 200"

section \<open>Data model\<close>

text \<open>
  The class \<open>BeatmapSet\<close> defines \<open>__init__\<close> and \<open>__str__\<close> only, so its objects are
  compared and hashed by object identity. \<open>oid\<close> is that identity: the allocation
  number of the object.
\<close>

record BeatmapSet =
  oid :: nat
  set_id :: int
  title :: string
  artist :: string
  url :: string

text \<open>One entry of \<open>data["beatmapsets"]\<close> in a search reply. A key that the JSON
  object lacks is \<open>None\<close>; \<open>js_beatmaps\<close> holds the \<open>"id"\<close> of each nested beatmap.\<close>

record bmset_json =
  js_id :: "int option"
  js_title :: "string option"
  js_artist :: "string option"
  js_beatmaps :: "int option list option"

text \<open>The body of a search reply: not JSON at all, or a JSON object with or without
  the key \<open>"beatmapsets"\<close>.\<close>

datatype search_body = NotJson | Json "bmset_json list option"

text \<open>The reply to a download request: the status, the \<open>content-length\<close> header if
  there is one, and the chunks that \<open>iter_content\<close> yields.\<close>

record response =
  status_code :: int
  content_length :: "string option"
  chunks :: "string list"

text \<open>One turn of the download loop as the environment decides it: which element
  \<open>set.pop()\<close> hands out (an index into the current elements, taken modulo their
  number) and what the server replies.\<close>

record dl_event =
  pick :: nat
  reply :: response

datatype node = Dir | File string

datatype level = INFO | ERROR | SUCCESS | WARNING

datatype request =
    HttpGet string "(string \<times> string) list" "(string \<times> string) list"
  | HttpPost string "(string \<times> string) list" "(string \<times> string) list"

text \<open>Everything the program is given from outside.\<close>

record env =
  USERPROFILE :: string
  credentials :: "(string \<times> string) list"
  homepage_token :: "string option"
  login_status :: int
  delete_answer :: "string option"
  console :: "string list"
  search :: "nat \<Rightarrow> string \<Rightarrow> search_body"
  downloads :: "dl_event list"
  disk :: "string \<rightharpoonup> node"
  creds_saved :: bool

text \<open>
  The fields of the \<open>Downloader\<close> object (\<open>beatmapsets\<close>, \<open>limit\<close>, \<open>no_video\<close>) and
  the world it acts on: the object allocator, the files below the download directory,
  the log entries emitted, the HTTP requests issued, and whether the credentials file
  exists. The set \<open>beatmapsets\<close> is the list of its elements, pairwise distinct by
  object identity.
\<close>

record state =
  beatmapsets :: "BeatmapSet list"
  limit :: int
  no_video :: bool
  next_oid :: nat
  fs :: "string \<rightharpoonup> node"
  log :: "(level \<times> string) list"
  requests :: "request list"
  creds_file :: bool

datatype outcome = Finished | Raised py_exc | Pending

definition logger :: "level \<Rightarrow> string \<Rightarrow> state \<Rightarrow> state" where
  "logger lv msg st = st\<lparr>log := log st @ [(lv, msg)]\<rparr>"

definition send :: "request \<Rightarrow> state \<Rightarrow> state" where
  "send r st = st\<lparr>requests := requests st @ [r]\<rparr>"

definition isdir :: "(string \<rightharpoonup> node) \<Rightarrow> string \<Rightarrow> bool" where
  "isdir f p = (case f p of Some Dir \<Rightarrow> True | _ \<Rightarrow> False)"

definition isfile :: "(string \<rightharpoonup> node) \<Rightarrow> string \<Rightarrow> bool" where
  "isfile f p = (case f p of Some (File _) \<Rightarrow> True | _ \<Rightarrow> False)"

subsection \<open>The set of BeatmapSet objects\<close>

definition set_add :: "BeatmapSet list \<Rightarrow> BeatmapSet \<Rightarrow> BeatmapSet list" where
  "set_add ws b = (if oid b \<in> oid ` set ws then ws else ws @ [b])"

definition set_pop :: "nat \<Rightarrow> BeatmapSet list \<Rightarrow> BeatmapSet \<times> BeatmapSet list" where
  "set_pop k ws = (let i = k mod length ws in (ws ! i, take i ws @ drop (Suc i) ws))"

subsection \<open>class BeatmapSet\<close>

definition BeatmapSet_init :: "state \<Rightarrow> bmset_json \<Rightarrow> state \<times> (py_exc + BeatmapSet)" where
  "BeatmapSet_init st data =
     (let st' = st\<lparr>next_oid := Suc (next_oid st)\<rparr> in
      case js_id data of
        None \<Rightarrow> (st', Inl (KeyError ''id''))
      | Some i \<Rightarrow>
          (case js_title data of
             None \<Rightarrow> (st', Inl (KeyError ''title''))
           | Some t \<Rightarrow>
               (case js_artist data of
                  None \<Rightarrow> (st', Inl (KeyError ''artist''))
                | Some a \<Rightarrow>
                    (st', Inr \<lparr> oid = next_oid st, set_id = i, title = t, artist = a,
                               url = ''https://osu.ppy.sh/beatmapsets/'' @ str_int i \<rparr>))))"

definition BeatmapSet_str :: "BeatmapSet \<Rightarrow> string" where
  "BeatmapSet_str b =
     ILLEGAL_CHARS_sub (str_int (set_id b) @ '' '' @ artist b @ '' - '' @ title b)"


section \<open>class Downloader\<close>

subsection \<open>login\<close>

definition delete_credentials :: "env \<Rightarrow> state \<Rightarrow> state" where
  "delete_credentials e st =
     (if creds_file st
      then logger SUCCESS (''Successfully deleted '' @ CREDS_FILEPATH (USERPROFILE e))
             (st\<lparr>creds_file := False\<rparr>)
      else st)"

text \<open>\<open>get_token\<close>: \<open>homepage_token\<close> is the group that the regular expression captures
  in the homepage, \<open>None\<close> when it does not match (then \<open>match.group\<close> is called on
  \<open>None\<close>).\<close>

definition get_token :: "env \<Rightarrow> state \<Rightarrow> state \<times> (py_exc + string)" where
  "get_token e st =
     (let st1 = send (HttpGet OSU_URL [] []) st in
      case homepage_token e of
        None \<Rightarrow> (st1, Inl AttributeError)
      | Some csrf_token \<Rightarrow> (st1, Inr csrf_token))"

definition login :: "env \<Rightarrow> state \<Rightarrow> state \<times> (py_exc + unit)" where
  "login e st =
     (let st1 = logger INFO '' made by hyeok2044 '' st;
          st2 = logger INFO (center '' DOWNLOADER STARTED '' 50 CHR ''#'') st1
      in case get_token e st2 of
           (st3, Inl exc) \<Rightarrow> (st3, Inl exc)
         | (st3, Inr token) \<Rightarrow>
             (let data = dict_set (credentials e) ''_token'' token;
                  headers = [(''referer'', OSU_URL)];
                  st4 = send (HttpPost OSU_SESSION_URL data headers) st3
              in if login_status e \<noteq> codes_ok
                 then (let st5 = logger ERROR ''Login failed'' st4
                       in case delete_answer e of
                            None \<Rightarrow> (st5, Inl EOFError)
                          | Some a \<Rightarrow>
                              ((if a = ''y'' \<or> a = ''Y'' then delete_credentials e st5 else st5),
                               Inl (SystemExit (Some 1))))
                 else (logger SUCCESS ''Login successful'' st4, Inr ())))"

subsection \<open>scrape_beatmapsets\<close>

text \<open>The inner loop over \<open>bmset["beatmaps"]\<close>: whether some beatmap's id equals
  \<open>int(s)\<close>.\<close>

fun find_map :: "builtins \<Rightarrow> string \<Rightarrow> int option list \<Rightarrow> py_exc + bool" where
  "find_map py s [] = Inr False"
| "find_map py s (oneMap # ms) =
     (case oneMap of
        None \<Rightarrow> Inl (KeyError ''id'')
      | Some i \<Rightarrow>
          (case py_int py s of
             None \<Rightarrow> Inl ValueError
           | Some n \<Rightarrow> if i = n then Inr True else find_map py s ms))"

text \<open>The outer loop of the numeric branch, with the flag \<open>chkIfExists\<close>.\<close>

fun scan_sets :: "builtins \<Rightarrow> string \<Rightarrow> state \<Rightarrow> bool \<Rightarrow> bmset_json list \<Rightarrow> state \<times> (py_exc + bool)" where
  "scan_sets py s st chkIfExists [] = (st, Inr chkIfExists)"
| "scan_sets py s st chkIfExists (bmset # rest) =
     (if \<not> chkIfExists
      then (case js_beatmaps bmset of
              None \<Rightarrow> (st, Inl (KeyError ''beatmaps''))
            | Some ms \<Rightarrow>
                (case find_map py s ms of
                   Inl exc \<Rightarrow> (st, Inl exc)
                 | Inr False \<Rightarrow> scan_sets py s st False rest
                 | Inr True \<Rightarrow>
                     (case BeatmapSet_init st bmset of
                        (st', Inl exc) \<Rightarrow> (st', Inl exc)
                      | (st', Inr b) \<Rightarrow>
                          scan_sets py s (st'\<lparr>beatmapsets := set_add (beatmapsets st') b\<rparr>) True rest)))
      else scan_sets py s st chkIfExists rest)"

text \<open>\<open>self.beatmapsets.update(BeatmapSet(bmset) for bmset in ...)\<close>.\<close>

fun update_sets :: "state \<Rightarrow> bmset_json list \<Rightarrow> state \<times> (py_exc + unit)" where
  "update_sets st [] = (st, Inr ())"
| "update_sets st (bmset # rest) =
     (case BeatmapSet_init st bmset of
        (st', Inl exc) \<Rightarrow> (st', Inl exc)
      | (st', Inr b) \<Rightarrow> update_sets (st'\<lparr>beatmapsets := set_add (beatmapsets st') b\<rparr>) rest)"

text \<open>The body of the \<open>while\<close> loop for a query \<open>s\<close> that is neither empty nor the
  sentinel. The reply may depend on the query and on how many requests went before.\<close>

definition query :: "builtins \<Rightarrow> env \<Rightarrow> state \<Rightarrow> string \<Rightarrow> state \<times> (py_exc + unit)" where
  "query py e st s =
     (let params = [(''m'', ''0''), (''q'', s), (''s'', ''any'')];
          st1 = send (HttpGet OSU_SEARCH_URL params []) st
      in case search e (length (requests st)) s of
           NotJson \<Rightarrow> (st1, Inl JSONDecodeError)
         | Json data \<Rightarrow>
             (if str_isnumeric py s
              then (case data of
                      None \<Rightarrow> (st1, Inl (KeyError ''beatmapsets''))
                    | Some sets \<Rightarrow>
                        (case scan_sets py s st1 False sets of
                           (st2, Inl exc) \<Rightarrow> (st2, Inl exc)
                         | (st2, Inr chkIfExists) \<Rightarrow>
                             (if \<not> chkIfExists
                              then (logger ERROR (''unable to find the beatmapset with ID: '' @ s) st2, Inr ())
                              else (st2, Inr ()))))
              else (case data of
                      None \<Rightarrow> (st1, Inl (KeyError ''beatmapsets''))
                    | Some sets \<Rightarrow> update_sets st1 sets)))"

text \<open>The \<open>while s != "-1"\<close> loop over the lines that \<open>input()\<close> returns; the head of the
  list is the line just read, and \<open>input()\<close> at the end of the input raises
  \<open>EOFError\<close>. The result is \<open>num_beatmapsets\<close>.\<close>

fun scrape_loop :: "builtins \<Rightarrow> env \<Rightarrow> state \<Rightarrow> nat \<Rightarrow> string list \<Rightarrow> state \<times> (py_exc + nat)" where
  "scrape_loop py e st num_beatmapsets [] = (st, Inl EOFError)"
| "scrape_loop py e st num_beatmapsets (s # lines) =
     (if s = ''-1'' then (st, Inr num_beatmapsets)
      else if s = [] then scrape_loop py e st num_beatmapsets lines
      else (case query py e st s of
              (st', Inl exc) \<Rightarrow> (st', Inl exc)
            | (st', Inr _) \<Rightarrow> scrape_loop py e st' (length (beatmapsets st')) lines))"

definition scrape_beatmapsets :: "builtins \<Rightarrow> env \<Rightarrow> state \<Rightarrow> state \<times> (py_exc + unit)" where
  "scrape_beatmapsets py e st =
     (let st1 = logger INFO ''Scraping beatmapsets!'' st;
          st2 = logger INFO ''Paste the beatmap ID to download one beatmap file or'' st1;
          st3 = logger INFO ''Search like how you do it in osu'' st2;
          st4 = logger INFO ''Type -1 at the last line to finish searching.'' st3
      in case scrape_loop py e st4 0 (console e) of
           (st5, Inl exc) \<Rightarrow> (st5, Inl exc)
         | (st5, Inr num_beatmapsets) \<Rightarrow>
             (logger SUCCESS (''Scraped '' @ str_nat num_beatmapsets @ '' beatmapsets.'') st5, Inr ()))"

subsection \<open>remove_existing_beatmapsets\<close>

definition has_artifact :: "(string \<rightharpoonup> node) \<Rightarrow> BeatmapSet \<Rightarrow> bool" where
  "has_artifact f beatmapset =
     (let dir_path = os_path_join DOWNLOAD_PATH (BeatmapSet_str beatmapset);
          file_path = dir_path @ ''.osz''
      in isdir f dir_path \<or> isfile f file_path)"

fun filter_loop :: "state \<Rightarrow> BeatmapSet list \<Rightarrow> BeatmapSet list \<Rightarrow> state \<times> BeatmapSet list" where
  "filter_loop st filtered_set [] = (st, filtered_set)"
| "filter_loop st filtered_set (beatmapset # rest) =
     (if has_artifact (fs st) beatmapset
      then filter_loop
             (logger INFO (''Beatmapset already downloaded: '' @ BeatmapSet_str beatmapset) st)
             filtered_set rest
      else filter_loop st (set_add filtered_set beatmapset) rest)"

definition remove_existing_beatmapsets :: "state \<Rightarrow> state" where
  "remove_existing_beatmapsets st =
     (case filter_loop st [] (beatmapsets st) of
        (st', filtered_set) \<Rightarrow> st'\<lparr>beatmapsets := filtered_set\<rparr>)"


subsection \<open>download_beatmapset_file and write_beatmapset_file\<close>

text \<open>\<open>open(file_path, "wb")\<close> creates or truncates the file before the iterable of the
  \<open>for\<close> statement, and with it \<open>ceil(file_size/4096)\<close>, is evaluated; opening a
  directory raises.\<close>

definition write_beatmapset_file :: "builtins \<Rightarrow> state \<Rightarrow> string \<Rightarrow> response \<Rightarrow> state \<times> (py_exc + unit)" where
  "write_beatmapset_file py st filename data =
     (let file_path = os_path_join DOWNLOAD_PATH (filename @ ''.osz'');
          st1 = logger INFO (''Writing file: '' @ file_path) st
      in case content_length data of
           None \<Rightarrow> (st1, Inl (KeyError ''content-length''))
         | Some v \<Rightarrow>
             (case py_int py v of
                None \<Rightarrow> (st1, Inl ValueError)
              | Some file_size \<Rightarrow>
                  (if isdir (fs st1) file_path then (st1, Inl IsADirectoryError)
                   else let st2 = st1\<lparr>fs := (fs st1)(file_path \<mapsto> File [])\<rparr>
                        in if true_div_overflows file_size 4096 then (st2, Inl OverflowError)
                           else let st3 = st2\<lparr>fs := (fs st2)(file_path \<mapsto> File (concat (chunks data)))\<rparr>
                                in (logger SUCCESS ''File write successful'' st3, Inr ()))))"

definition download_beatmapset_file :: "builtins \<Rightarrow> state \<Rightarrow> BeatmapSet \<Rightarrow> response \<Rightarrow> state \<times> (py_exc + bool)" where
  "download_beatmapset_file py st beatmapset resp =
     (let st1 = logger INFO (''Downloading beatmapset: '' @ BeatmapSet_str beatmapset) st;
          headers = [(''referer'', url beatmapset)];
          download_url = url beatmapset @ ''/download'' @ (if no_video st then ''?noVideo=1'' else []);
          st2 = send (HttpGet download_url [] headers) st1
      in if status_code resp = codes_ok
         then (let st3 = logger SUCCESS (str_int (status_code resp) @ '' - Download successful'') st2
               in case write_beatmapset_file py st3 (BeatmapSet_str beatmapset) resp of
                    (st4, Inl exc) \<Rightarrow> (st4, Inl exc)
                  | (st4, Inr _) \<Rightarrow> (st4, Inr True))
         else (logger WARNING (str_int (status_code resp) @ '' - Download failed'') st2, Inr False))"

subsection \<open>run\<close>

definition abort_messages :: "state \<Rightarrow> state" where
  "abort_messages st =
     logger INFO (center '' DOWNLOADER TERMINATED '' 50 CHR ''#'' @ [CHR 0x0A])
       (logger INFO ''Try again later''
         (logger INFO ''Website download limit reached''
           (logger ERROR ''Failed 5 times in a row'' st)))"

text \<open>
  The \<open>while self.beatmapsets\<close> loop with its counter \<open>tries\<close>, run against the replies
  that the environment has ready. The result is the state reached, the value of
  \<open>tries\<close> there, and how the loop ended: \<open>Finished\<close> when the set is empty, \<open>Raised\<close>
  when an exception (also \<open>SystemExit\<close>) left it, \<open>Pending\<close> when the loop is about to
  issue a request for which no reply is given.
\<close>

fun run_loop :: "builtins \<Rightarrow> state \<Rightarrow> nat \<Rightarrow> dl_event list \<Rightarrow> state \<times> nat \<times> outcome" where
  "run_loop py st tries [] =
     (if beatmapsets st = [] then (st, tries, Finished) else (st, tries, Pending))"
| "run_loop py st tries (ev # evs) =
     (if beatmapsets st = [] then (st, tries, Finished)
      else case set_pop (pick ev) (beatmapsets st) of
        (next_set, remaining) \<Rightarrow>
          (case download_beatmapset_file py (st\<lparr>beatmapsets := remaining\<rparr>) next_set (reply ev) of
             (st1, Inl exc) \<Rightarrow> (st1, tries, Raised exc)
           | (st1, Inr True) \<Rightarrow> run_loop py st1 0 evs
           | (st1, Inr False) \<Rightarrow>
               (let st2 = st1\<lparr>beatmapsets := set_add (beatmapsets st1) next_set\<rparr>;
                    tries' = tries + 1
                in if tries' > 4 then (abort_messages st2, tries', Raised (SystemExit None))
                   else run_loop py st2 tries' evs)))"

definition run :: "builtins \<Rightarrow> state \<Rightarrow> dl_event list \<Rightarrow> state \<times> nat \<times> outcome" where
  "run py st evs =
     (let st1 = logger INFO ''List of beatmaps to be downloaded:'' st;
          st2 = foldl (\<lambda>acc beatmapset. logger INFO (BeatmapSet_str beatmapset) acc) st1 (beatmapsets st1)
      in case run_loop py st2 0 evs of
           (st3, tries, Finished) \<Rightarrow>
             (logger INFO (center '' DOWNLOADER FINISHED '' 50 CHR ''#'' @ [CHR 0x0A]) st3, tries, Finished)
         | (st3, tries, out) \<Rightarrow> (st3, tries, out))"

subsection \<open>__init__ and main\<close>

definition Downloader_init :: "builtins \<Rightarrow> env \<Rightarrow> int \<Rightarrow> bool \<Rightarrow> state \<times> (py_exc + unit)" where
  "Downloader_init py e limit_arg no_video_arg =
     (let st = \<lparr> beatmapsets = [], limit = limit_arg, no_video = no_video_arg, next_oid = 0,
                 fs = disk e, log = [], requests = [], creds_file = creds_saved e \<rparr>
      in case login e st of
           (st1, Inl exc) \<Rightarrow> (st1, Inl exc)
         | (st1, Inr _) \<Rightarrow>
             (case scrape_beatmapsets py e st1 of
                (st2, Inl exc) \<Rightarrow> (st2, Inl exc)
              | (st2, Inr _) \<Rightarrow> (remove_existing_beatmapsets st2, Inr ())))"

text \<open>\<open>dl = Downloader(limit, no_video); dl.run()\<close>, the part of \<open>main\<close> that is not
  credential or directory set-up; \<open>main\<close> passes 10 and 1. The credentials that
  \<open>load_credentials\<close> obtains are given by the environment.\<close>

definition program :: "builtins \<Rightarrow> env \<Rightarrow> int \<Rightarrow> bool \<Rightarrow> state \<times> outcome" where
  "program py e limit_arg no_video_arg =
     (case Downloader_init py e limit_arg no_video_arg of
        (st, Inl exc) \<Rightarrow> (st, Raised exc)
      | (st, Inr _) \<Rightarrow> (case run py st (downloads e) of (st', tries, out) \<Rightarrow> (st', out)))"

definition main :: "builtins \<Rightarrow> env \<Rightarrow> state \<times> outcome" where
  "main py e = program py e 10 True"

text \<open>The exit status of the interpreter: 0 when the program returns or \<open>sys.exit()\<close> is
  called without an argument, the argument of \<open>sys.exit(n)\<close>, 1 for any other uncaught
  exception. A run that is still \<open>Pending\<close> has no exit status.\<close>

definition exit_code :: "outcome \<Rightarrow> int option" where
  "exit_code out =
     (case out of
        Finished \<Rightarrow> Some 0
      | Raised (SystemExit None) \<Rightarrow> Some 0
      | Raised (SystemExit (Some n)) \<Rightarrow> Some n
      | Raised _ \<Rightarrow> Some 1
      | Pending \<Rightarrow> None)"

text \<open>What an observer of a run sees: the HTTP requests, the files, the log entries and
  the exit status.\<close>

definition observe :: "state \<times> outcome \<Rightarrow> request list \<times> (string \<rightharpoonup> node) \<times> (level \<times> string) list \<times> bool \<times> int option" where
  "observe r = (requests (fst r), fs (fst r), log (fst r), creds_file (fst r), exit_code (snd r))"

section \<open>Notions used in the statements\<close>

text \<open>A list stands for a Python set of \<open>BeatmapSet\<close> objects when no object occurs in it
  twice.\<close>

definition is_set :: "BeatmapSet list \<Rightarrow> bool" where
  "is_set ws = distinct (map oid ws)"

text \<open>The Working Set of a state is such a set, and all its objects were allocated
  before the next one will be.\<close>

definition working_set_ok :: "state \<Rightarrow> bool" where
  "working_set_ok st = (is_set (beatmapsets st) \<and> (\<forall>b\<in>set (beatmapsets st). oid b < next_oid st))"

text \<open>When \<open>write_beatmapset_file\<close> returns: the header is there, \<open>int\<close> accepts it, the
  target is not a directory and the size is within the range of a float.\<close>

definition writable :: "builtins \<Rightarrow> (string \<rightharpoonup> node) \<Rightarrow> string \<Rightarrow> response \<Rightarrow> bool" where
  "writable py f filename data =
     (case content_length data of
        None \<Rightarrow> False
      | Some v \<Rightarrow>
          (case py_int py v of
             None \<Rightarrow> False
           | Some n \<Rightarrow> \<not> isdir f (os_path_join DOWNLOAD_PATH (filename @ ''.osz''))
                        \<and> \<not> true_div_overflows n 4096))"

text \<open>The state after a turn of the download loop in which the download failed (the
  record is back in the set), and after a turn in which it succeeded.\<close>

definition after_failure :: "builtins \<Rightarrow> state \<Rightarrow> dl_event \<Rightarrow> state" where
  "after_failure py st ev =
     (case set_pop (pick ev) (beatmapsets st) of
        (next_set, remaining) \<Rightarrow>
          (let st1 = fst (download_beatmapset_file py (st\<lparr>beatmapsets := remaining\<rparr>) next_set (reply ev))
           in st1\<lparr>beatmapsets := set_add (beatmapsets st1) next_set\<rparr>))"

definition after_success :: "builtins \<Rightarrow> state \<Rightarrow> dl_event \<Rightarrow> state" where
  "after_success py st ev =
     (case set_pop (pick ev) (beatmapsets st) of
        (next_set, remaining) \<Rightarrow>
          fst (download_beatmapset_file py (st\<lparr>beatmapsets := remaining\<rparr>) next_set (reply ev)))"

text \<open>The same state with another value stored in \<open>limit\<close>.\<close>

definition relimit :: "int \<Rightarrow> state \<Rightarrow> state" where
  "relimit l st = st\<lparr>limit := l\<rparr>"

section \<open>Example inputs\<close>

text \<open>Two records, as \<open>BeatmapSet\<close> builds them from search results, and states whose
  Working Set holds the first, or both.\<close>

definition example_set :: BeatmapSet where
  "example_set = \<lparr> oid = 0, set_id = 5, title = ''Foo: Bar/Baz'', artist = ''A'',
                    url = ''https://osu.ppy.sh/beatmapsets/5'' \<rparr>"

definition example_set2 :: BeatmapSet where
  "example_set2 = \<lparr> oid = 1, set_id = 9, title = ''T'', artist = ''B'',
                     url = ''https://osu.ppy.sh/beatmapsets/9'' \<rparr>"

definition example_state :: state where
  "example_state = \<lparr> beatmapsets = [example_set], limit = 10, no_video = True, next_oid = 1,
                      fs = Map.empty, log = [], requests = [], creds_file = False \<rparr>"

definition example_state2 :: state where
  "example_state2 = example_state\<lparr>beatmapsets := [example_set, example_set2], next_oid := 2\<rparr>"

text \<open>A download directory that already holds the archive of the first record.\<close>

definition example_disk :: "string \<rightharpoonup> node" where
  "example_disk = [''./Downloads/5 A - Foo_ Bar_Baz.osz'' \<mapsto> File ''PK'']"

text \<open>One entry of a search reply: the set 5 with the beatmaps 77 and 78.\<close>

definition example_json :: bmset_json where
  "example_json = \<lparr> js_id = Some 5, js_title = Some ''Foo: Bar/Baz'', js_artist = Some ''A'',
                     js_beatmaps = Some [Some 77, Some 78] \<rparr>"

text \<open>Download replies: refused (429), accepted with a three-byte body, accepted
  without a \<open>content-length\<close> header, and a 204.\<close>

definition failed_reply :: dl_event where
  "failed_reply = \<lparr> pick = 0, reply = \<lparr> status_code = 429, content_length = None, chunks = [] \<rparr> \<rparr>"

definition good_reply :: dl_event where
  "good_reply = \<lparr> pick = 0, reply = \<lparr> status_code = 200, content_length = Some ''3'', chunks = [''abc''] \<rparr> \<rparr>"

definition missing_length :: dl_event where
  "missing_length = \<lparr> pick = 0, reply = \<lparr> status_code = 200, content_length = None, chunks = [''abc''] \<rparr> \<rparr>"

definition no_content_reply :: dl_event where
  "no_content_reply = \<lparr> pick = 0, reply = \<lparr> status_code = 204, content_length = Some ''0'', chunks = [] \<rparr> \<rparr>"

text \<open>An environment in which the login succeeds, every search returns the set 5, the
  user enters \<open>foo\<close>, an empty line and the sentinel, and every download is refused;
  and its variants with a numeric query and with the same query twice.\<close>

definition example_env :: env where
  "example_env = \<lparr> USERPROFILE = ''/home/u'', credentials = [(''username'', ''u''), (''password'', ''p'')],
                    homepage_token = Some ''tok'', login_status = 200, delete_answer = Some ''n'',
                    console = [''foo'', [], ''-1''], search = (\<lambda>n q. Json (Some [example_json])),
                    downloads = replicate 5 failed_reply, disk = Map.empty, creds_saved = True \<rparr>"

definition numeric_env :: env where
  "numeric_env = example_env\<lparr>console := [''1234'', ''-1'']\<rparr>"

definition repeated_env :: env where
  "repeated_env = example_env\<lparr>console := [''foo'', ''foo'', ''-1'']\<rparr>"

text \<open>The same query twice, with both downloads accepted.\<close>

definition accepted_env :: env where
  "accepted_env = repeated_env\<lparr>downloads := [good_reply, good_reply]\<rparr>"

section \<open>Properties\<close>

subsection \<open>Fields of the state under logging and sending\<close>

lemma logger_simps [simp]:
  "beatmapsets (logger lv m st) = beatmapsets st"
  "limit (logger lv m st) = limit st"
  "no_video (logger lv m st) = no_video st"
  "next_oid (logger lv m st) = next_oid st"
  "fs (logger lv m st) = fs st"
  "log (logger lv m st) = log st @ [(lv, m)]"
  "requests (logger lv m st) = requests st"
  "creds_file (logger lv m st) = creds_file st"
  by (simp_all add: logger_def)

lemma send_simps [simp]:
  "beatmapsets (send r st) = beatmapsets st"
  "limit (send r st) = limit st"
  "no_video (send r st) = no_video st"
  "next_oid (send r st) = next_oid st"
  "fs (send r st) = fs st"
  "log (send r st) = log st"
  "requests (send r st) = requests st @ [r]"
  "creds_file (send r st) = creds_file st"
  by (simp_all add: send_def)

subsection \<open>Canonical names\<close>

lemma str_int_5: "str_int 5 = ''5''" by code_simp

text \<open>
  C7. The canonical name of a record is \<open>"{set_id} {artist} - {title}"\<close> with each of the
  characters \<open>< > : " / \ | ? *\<close> replaced by an underscore; replacing again changes
  nothing; and set_id 5, artist \<open>A\<close>, title \<open>Foo: Bar/Baz\<close> give \<open>5 A - Foo_ Bar_Baz\<close>.
\<close>
theorem canonical_name:
  "BeatmapSet_str b =
     map (\<lambda>c. if c \<in> {CHR ''<'', CHR ''>'', CHR '':'', CHR 0x22, CHR ''/'', CHR 0x5C, CHR ''|'', CHR ''?'', CHR ''*''}
               then CHR ''_'' else c)
       (str_int (set_id b) @ '' '' @ artist b @ '' - '' @ title b)
   \<and> ILLEGAL_CHARS_sub (ILLEGAL_CHARS_sub s) = ILLEGAL_CHARS_sub s
   \<and> ILLEGAL_CHARS_sub (BeatmapSet_str b) = BeatmapSet_str b
   \<and> BeatmapSet_str \<lparr> oid = k, set_id = 5, title = ''Foo: Bar/Baz'', artist = ''A'', url = u \<rparr>
         = ''5 A - Foo_ Bar_Baz''"
  by (simp add: BeatmapSet_str_def ILLEGAL_CHARS_sub_def ILLEGAL_CHARS_def str_int_5)

subsection \<open>Writing and downloading one file\<close>

lemma write_no_length:
  "content_length data = None \<Longrightarrow>
   write_beatmapset_file py st filename data =
     (logger INFO (''Writing file: '' @ os_path_join DOWNLOAD_PATH (filename @ ''.osz'')) st,
      Inl (KeyError ''content-length''))"
  by (simp add: write_beatmapset_file_def)

lemma write_bad_length:
  "content_length data = Some v \<Longrightarrow> py_int py v = None \<Longrightarrow>
   write_beatmapset_file py st filename data =
     (logger INFO (''Writing file: '' @ os_path_join DOWNLOAD_PATH (filename @ ''.osz'')) st,
      Inl ValueError)"
  by (simp add: write_beatmapset_file_def)

lemma write_ok_iff:
  "(snd (write_beatmapset_file py st filename data) = Inr ()) = writable py (fs st) filename data"
  by (simp add: write_beatmapset_file_def writable_def Let_def split: option.splits)

text \<open>
  C10. \<open>write_beatmapset_file\<close> reads \<open>int(data.headers['content-length'])\<close> before it
  opens the output file: when the header is missing or \<open>int\<close> rejects its value, the
  call raises (\<open>KeyError\<close>, \<open>ValueError\<close>) having only logged the path, so no file is
  created or written; a download whose status is ok raises in the same way.
\<close>
theorem write_needs_content_length:
  assumes "content_length data = None \<or> (\<exists>v. content_length data = Some v \<and> py_int py v = None)"
  shows "write_beatmapset_file py st filename data =
           (logger INFO (''Writing file: '' @ os_path_join DOWNLOAD_PATH (filename @ ''.osz'')) st,
            Inl (if content_length data = None then KeyError ''content-length'' else ValueError))
         \<and> fs (fst (write_beatmapset_file py st filename data)) = fs st
         \<and> (status_code data = codes_ok \<longrightarrow>
              snd (download_beatmapset_file py st b data) =
                Inl (if content_length data = None then KeyError ''content-length'' else ValueError)
              \<and> fs (fst (download_beatmapset_file py st b data)) = fs st)"
  using assms
  by (auto simp: write_no_length write_bad_length download_beatmapset_file_def Let_def)

theorem write_needs_content_length_witness:
  "(content_length (reply missing_length) = None
      \<or> (\<exists>v. content_length (reply missing_length) = Some v \<and> py_int ascii_builtins v = None))
   \<and> status_code (reply missing_length) = codes_ok
   \<and> snd (download_beatmapset_file ascii_builtins example_state example_set (reply missing_length))
        = Inl (KeyError ''content-length'')
   \<and> fs (fst (download_beatmapset_file ascii_builtins example_state example_set (reply missing_length)))
        = fs example_state"
proof -
  have h: "content_length (reply missing_length) = None
      \<or> (\<exists>v. content_length (reply missing_length) = Some v \<and> py_int ascii_builtins v = None)"
    by (simp add: missing_length_def)
  have ok: "status_code (reply missing_length) = codes_ok"
    by (simp add: missing_length_def codes_ok_def)
  from write_needs_content_length [OF h, of example_state "BeatmapSet_str example_set" example_set] h ok
  show ?thesis by (simp add: missing_length_def)
qed

lemma login_ok_iff:
  "homepage_token e = Some tok \<Longrightarrow> (snd (login e st) = Inr ()) = (login_status e = 200)"
  by (simp add: login_def get_token_def Let_def codes_ok_def split: option.splits)

lemma snd_case_write:
  "(snd (case p of (s, Inl e) \<Rightarrow> (s, Inl e) | (s, Inr (u::unit)) \<Rightarrow> (s, Inr True)) = Inr True) = (snd p = Inr ())"
  "(snd (case p of (s, Inl e) \<Rightarrow> (s, Inl e) | (s, Inr (u::unit)) \<Rightarrow> (s, Inr True)) = Inr False) = False"
  by (cases p; cases "snd p"; simp)+

lemma download_False_iff:
  "(snd (download_beatmapset_file py st b r) = Inr False) = (status_code r \<noteq> 200)"
  by (simp add: download_beatmapset_file_def Let_def codes_ok_def snd_case_write)

lemma download_True_iff:
  "(snd (download_beatmapset_file py st b r) = Inr True) =
     (status_code r = 200 \<and> writable py (fs st) (BeatmapSet_str b) r)"
  by (simp add: download_beatmapset_file_def Let_def codes_ok_def snd_case_write write_ok_iff)

lemma download_failed:
  "status_code r \<noteq> 200 \<Longrightarrow>
   download_beatmapset_file py st b r =
     (logger WARNING (str_int (status_code r) @ '' - Download failed'')
        (send (HttpGet (url b @ ''/download'' @ (if no_video st then ''?noVideo=1'' else [])) []
                 [(''referer'', url b)])
           (logger INFO (''Downloading beatmapset: '' @ BeatmapSet_str b) st)), Inr False)"
  by (simp add: download_beatmapset_file_def Let_def codes_ok_def)

lemma download_True_file:
  "snd (download_beatmapset_file py st b r) = Inr True \<Longrightarrow>
   fs (fst (download_beatmapset_file py st b r)) (os_path_join DOWNLOAD_PATH (BeatmapSet_str b @ ''.osz''))
     = Some (File (concat (chunks r)))"
  by (auto simp: download_beatmapset_file_def write_beatmapset_file_def Let_def codes_ok_def
      split: prod.splits sum.splits option.splits if_splits)

subsection \<open>One turn of the download loop\<close>

lemma set_pop_props:
  assumes "ws \<noteq> []"
  shows "fst (set_pop k ws) \<in> set ws"
    and "insert (fst (set_pop k ws)) (set (snd (set_pop k ws))) = set ws"
    and "Suc (length (snd (set_pop k ws))) = length ws"
    and "is_set ws \<Longrightarrow> is_set (snd (set_pop k ws))"
    and "is_set ws \<Longrightarrow> oid (fst (set_pop k ws)) \<notin> oid ` set (snd (set_pop k ws))"
proof -
  let ?i = "k mod length ws"
  from assms have i: "?i < length ws" by simp
  have split: "ws = take ?i ws @ ws ! ?i # drop (Suc ?i) ws"
    by (rule id_take_nth_drop [OF i])
  have pop: "set_pop k ws = (ws ! ?i, take ?i ws @ drop (Suc ?i) ws)"
    by (simp add: set_pop_def Let_def)
  show "fst (set_pop k ws) \<in> set ws" using i by (simp add: pop)
  have "set ws = set (take ?i ws @ ws ! ?i # drop (Suc ?i) ws)" using split by simp
  then show "insert (fst (set_pop k ws)) (set (snd (set_pop k ws))) = set ws"
    by (simp add: pop)
  have "length ws = length (take ?i ws @ ws ! ?i # drop (Suc ?i) ws)" using split by simp
  then show "Suc (length (snd (set_pop k ws))) = length ws"
    by (simp add: pop)
  {
    assume "is_set ws"
    then have "distinct (map oid (take ?i ws @ ws ! ?i # drop (Suc ?i) ws))"
      unfolding is_set_def using split by simp
    then have d: "distinct (map oid (take ?i ws) @ oid (ws ! ?i) # map oid (drop (Suc ?i) ws))"
      by simp
    from d show "is_set (snd (set_pop k ws))"
      by (auto simp: pop is_set_def)
    from d show "oid (fst (set_pop k ws)) \<notin> oid ` set (snd (set_pop k ws))"
      by (auto simp: pop)
  }
qed

lemma set_add_fresh:
  "oid b \<notin> oid ` set ws \<Longrightarrow> set_add ws b = ws @ [b]"
  by (simp add: set_add_def)

lemma is_set_add: "is_set ws \<Longrightarrow> is_set (set_add ws b)"
  by (auto simp: set_add_def is_set_def)

lemma download_failed_fields:
  assumes "status_code r \<noteq> 200"
  shows "beatmapsets (fst (download_beatmapset_file py st b r)) = beatmapsets st"
    and "fs (fst (download_beatmapset_file py st b r)) = fs st"
    and "length (requests (fst (download_beatmapset_file py st b r))) = Suc (length (requests st))"
    and "snd (download_beatmapset_file py st b r) = Inr False"
  using assms by (simp_all add: download_failed)

lemma after_failure_props:
  assumes ne: "beatmapsets st \<noteq> []" and wf: "is_set (beatmapsets st)"
      and r: "status_code (reply ev) \<noteq> 200"
  shows "set (beatmapsets (after_failure py st ev)) = set (beatmapsets st)"
    and "length (beatmapsets (after_failure py st ev)) = length (beatmapsets st)"
    and "is_set (beatmapsets (after_failure py st ev))"
    and "beatmapsets (after_failure py st ev) \<noteq> []"
    and "fs (after_failure py st ev) = fs st"
    and "length (requests (after_failure py st ev)) = Suc (length (requests st))"
proof -
  obtain b rest where pop: "set_pop (pick ev) (beatmapsets st) = (b, rest)"
    by (cases "set_pop (pick ev) (beatmapsets st)")
  from set_pop_props [OF ne, of "pick ev"] wf pop
  have ins: "insert b (set rest) = set (beatmapsets st)"
    and len: "Suc (length rest) = length (beatmapsets st)"
    and wfr: "is_set rest" and fresh: "oid b \<notin> oid ` set rest"
    by simp_all
  have ws: "beatmapsets (after_failure py st ev) = rest @ [b]"
    using fresh by (simp add: after_failure_def pop Let_def download_failed_fields [OF r] set_add_fresh)
  show "set (beatmapsets (after_failure py st ev)) = set (beatmapsets st)"
    using ins by (simp add: ws)
  show "length (beatmapsets (after_failure py st ev)) = length (beatmapsets st)"
    using len by (simp add: ws)
  show "is_set (beatmapsets (after_failure py st ev))"
    using wfr fresh by (auto simp: ws is_set_def)
  show "beatmapsets (after_failure py st ev) \<noteq> []" by (simp add: ws)
  show "fs (after_failure py st ev) = fs st"
    by (simp add: after_failure_def pop Let_def download_failed_fields [OF r])
  show "length (requests (after_failure py st ev)) = Suc (length (requests st))"
    by (simp add: after_failure_def pop Let_def download_failed_fields [OF r])
qed

lemma run_loop_failure:
  assumes "beatmapsets st \<noteq> []" and "status_code (reply ev) \<noteq> 200"
  shows "run_loop py st tries (ev # evs) =
           (if tries \<ge> 4 then (abort_messages (after_failure py st ev), Suc tries, Raised (SystemExit None))
            else run_loop py (after_failure py st ev) (Suc tries) evs)"
proof -
  obtain b rest where pop: "set_pop (pick ev) (beatmapsets st) = (b, rest)"
    by (cases "set_pop (pick ev) (beatmapsets st)")
  obtain st1 where dl: "download_beatmapset_file py (st\<lparr>beatmapsets := rest\<rparr>) b (reply ev) = (st1, Inr False)"
    using download_failed [OF assms(2)] by simp
  show ?thesis
    using assms(1) by (simp add: pop dl after_failure_def Let_def)
qed

lemma run_loop_success:
  assumes "beatmapsets st \<noteq> []"
      and "snd (download_beatmapset_file py (st\<lparr>beatmapsets := snd (set_pop (pick ev) (beatmapsets st))\<rparr>)
                 (fst (set_pop (pick ev) (beatmapsets st))) (reply ev)) = Inr True"
  shows "run_loop py st tries (ev # evs) = run_loop py (after_success py st ev) 0 evs"
proof -
  obtain b rest where pop: "set_pop (pick ev) (beatmapsets st) = (b, rest)"
    by (cases "set_pop (pick ev) (beatmapsets st)")
  obtain st1 where dl: "download_beatmapset_file py (st\<lparr>beatmapsets := rest\<rparr>) b (reply ev) = (st1, Inr True)"
    using assms(2) by (cases "download_beatmapset_file py (st\<lparr>beatmapsets := rest\<rparr>) b (reply ev)") (simp add: pop)
  show ?thesis
    using assms(1) by (simp add: pop dl after_success_def)
qed

subsection \<open>Failure streaks\<close>

lemma failure_streak:
  assumes "beatmapsets st \<noteq> []" and "is_set (beatmapsets st)"
      and "\<forall>ev\<in>set fails. status_code (reply ev) \<noteq> 200"
      and "tries + length fails \<le> 4"
  shows "run_loop py st tries (fails @ rest) =
           run_loop py (foldl (after_failure py) st fails) (tries + length fails) rest"
  using assms
proof (induction fails arbitrary: st tries)
  case Nil
  then show ?case by simp
next
  case (Cons ev fails)
  from Cons.prems have r: "status_code (reply ev) \<noteq> 200" and t: "\<not> 4 \<le> tries" by simp_all
  have step: "run_loop py st tries ((ev # fails) @ rest) =
                run_loop py (after_failure py st ev) (Suc tries) (fails @ rest)"
    using run_loop_failure [OF Cons.prems(1) r] t by simp
  have "run_loop py (after_failure py st ev) (Suc tries) (fails @ rest) =
          run_loop py (foldl (after_failure py) (after_failure py st ev) fails) (Suc tries + length fails) rest"
    using Cons.prems after_failure_props [OF Cons.prems(1,2) r]
    by (intro Cons.IH) simp_all
  with step show ?case by simp
qed

lemma streak_props:
  assumes "beatmapsets st \<noteq> []" and "is_set (beatmapsets st)"
      and "\<forall>ev\<in>set fails. status_code (reply ev) \<noteq> 200"
  shows "set (beatmapsets (foldl (after_failure py) st fails)) = set (beatmapsets st)
       \<and> length (beatmapsets (foldl (after_failure py) st fails)) = length (beatmapsets st)
       \<and> is_set (beatmapsets (foldl (after_failure py) st fails))
       \<and> beatmapsets (foldl (after_failure py) st fails) \<noteq> []
       \<and> fs (foldl (after_failure py) st fails) = fs st
       \<and> length (requests (foldl (after_failure py) st fails)) = length (requests st) + length fails"
  using assms
proof (induction fails arbitrary: st)
  case Nil
  then show ?case by simp
next
  case (Cons ev fails)
  from Cons.prems have r: "status_code (reply ev) \<noteq> 200" by simp
  note a = after_failure_props [OF Cons.prems(1,2) r, of py]
  have "set (beatmapsets (foldl (after_failure py) (after_failure py st ev) fails)) = set (beatmapsets (after_failure py st ev))
       \<and> length (beatmapsets (foldl (after_failure py) (after_failure py st ev) fails)) = length (beatmapsets (after_failure py st ev))
       \<and> is_set (beatmapsets (foldl (after_failure py) (after_failure py st ev) fails))
       \<and> beatmapsets (foldl (after_failure py) (after_failure py st ev) fails) \<noteq> []
       \<and> fs (foldl (after_failure py) (after_failure py st ev) fails) = fs (after_failure py st ev)
       \<and> length (requests (foldl (after_failure py) (after_failure py st ev) fails)) = length (requests (after_failure py st ev)) + length fails"
    using Cons.prems a by (intro Cons.IH) simp_all
  with a show ?case by simp
qed

lemma abort_messages_simps [simp]:
  "beatmapsets (abort_messages st) = beatmapsets st"
  "fs (abort_messages st) = fs st"
  "requests (abort_messages st) = requests st"
  by (simp_all add: abort_messages_def)

text \<open>
  C2. From the start of a failure streak (counter 0, Working Set not empty), five
  consecutive replies whose status is not ok end the run with \<open>SystemExit\<close> at the fifth:
  exactly five download requests have been issued, whatever replies would follow and
  however many records the set holds; after four the loop is still running. Each
  failed record is added back, so the Working Set at termination holds the same
  records as before the streak, and no file has been touched.
\<close>
theorem five_failures_abort:
  assumes "is_set (beatmapsets st)" and "beatmapsets st \<noteq> []"
      and "length fails = 5"
      and "\<forall>ev\<in>set fails. status_code (reply ev) \<noteq> 200"
  shows "\<exists>st'. run_loop py st 0 (fails @ rest) = (st', 5, Raised (SystemExit None))
           \<and> run_loop py st 0 fails = (st', 5, Raised (SystemExit None))
           \<and> length (requests st') = length (requests st) + 5
           \<and> set (beatmapsets st') = set (beatmapsets st)
           \<and> fs st' = fs st
           \<and> snd (snd (run_loop py st 0 (take 4 fails))) = Pending"
proof -
  from assms(3) obtain f4 ev where fails: "fails = f4 @ [ev]" and l4: "length f4 = 4"
    by (cases fails rule: rev_cases) auto
  from assms(4) fails have f4: "\<forall>e\<in>set f4. status_code (reply e) \<noteq> 200"
    and r: "status_code (reply ev) \<noteq> 200" by simp_all
  let ?st4 = "foldl (after_failure py) st f4"
  let ?st5 = "abort_messages (after_failure py ?st4 ev)"
  note p4 = streak_props [OF assms(2,1) f4, of py]
  from p4 have ne4: "beatmapsets ?st4 \<noteq> []" and wf4: "is_set (beatmapsets ?st4)" by simp_all
  note p5 = after_failure_props [OF ne4 wf4 r, of py]
  have run4: "run_loop py st 0 (f4 @ xs) = run_loop py ?st4 4 xs" for xs
    using failure_streak [OF assms(2,1) f4, of 0 py xs] l4 by simp
  have last: "run_loop py ?st4 4 (ev # xs) = (?st5, 5, Raised (SystemExit None))" for xs
    using run_loop_failure [OF ne4 r, of py 4 xs] by simp
  have "run_loop py st 0 (fails @ rest) = (?st5, 5, Raised (SystemExit None))"
    using run4 [of "ev # rest"] last [of rest] by (simp add: fails)
  moreover have "run_loop py st 0 fails = (?st5, 5, Raised (SystemExit None))"
    using run4 [of "[ev]"] last [of "[]"] by (simp add: fails)
  moreover have "length (requests ?st5) = length (requests st) + 5"
    using p4 p5 l4 by simp
  moreover have "set (beatmapsets ?st5) = set (beatmapsets st)"
    using p4 p5 by simp
  moreover have "fs ?st5 = fs st"
    using p4 p5 by simp
  moreover have "snd (snd (run_loop py st 0 (take 4 fails))) = Pending"
    using run4 [of "[]"] ne4 l4 by (simp add: fails)
  ultimately show ?thesis by blast
qed

theorem five_failures_abort_witness:
  "is_set (beatmapsets example_state) \<and> beatmapsets example_state \<noteq> []
   \<and> length (replicate 5 failed_reply) = 5
   \<and> list_all (\<lambda>ev. status_code (reply ev) \<noteq> 200) (replicate 5 failed_reply)
   \<and> snd (run_loop ascii_builtins example_state 0 (replicate 5 failed_reply @ [good_reply]))
        = (5, Raised (SystemExit None))"
proof -
  have h: "is_set (beatmapsets example_state)" "beatmapsets example_state \<noteq> []"
    "length (replicate 5 failed_reply) = 5"
    "\<forall>ev\<in>set (replicate 5 failed_reply). status_code (reply ev) \<noteq> 200"
    by (simp_all add: example_state_def is_set_def failed_reply_def)
  from five_failures_abort [OF h, of ascii_builtins "[good_reply]"] h show ?thesis
    by (auto simp: list_all_iff)
qed

subsection \<open>The failure counter\<close>

lemma write_beatmapsets [simp]:
  "beatmapsets (fst (write_beatmapset_file py st filename data)) = beatmapsets st"
  by (simp add: write_beatmapset_file_def Let_def split: option.splits)

lemma download_beatmapsets [simp]:
  "beatmapsets (fst (download_beatmapset_file py st b r)) = beatmapsets st"
proof -
  have "beatmapsets (fst (case p of (s, Inl e) \<Rightarrow> (s, Inl e) | (s, Inr (u::unit)) \<Rightarrow> (s, Inr True))) = beatmapsets (fst p)"
    for p :: "state \<times> (py_exc + unit)"
    by (cases p; cases "snd p"; simp)
  then show ?thesis
    by (simp add: download_beatmapset_file_def Let_def)
qed

lemma after_success_beatmapsets:
  "beatmapsets (after_success py st ev) = snd (set_pop (pick ev) (beatmapsets st))"
  by (simp add: after_success_def split: prod.splits)

lemma listing_fields:
  "beatmapsets (foldl (\<lambda>acc b. logger lv (f b) acc) st xs) = beatmapsets st
   \<and> fs (foldl (\<lambda>acc b. logger lv (f b) acc) st xs) = fs st
   \<and> requests (foldl (\<lambda>acc b. logger lv (f b) acc) st xs) = requests st"
  by (induction xs arbitrary: st) simp_all

lemma run_tries:
  "snd (run py st evs) =
     snd (run_loop py (foldl (\<lambda>acc b. logger INFO (BeatmapSet_str b) acc)
                        (logger INFO ''List of beatmaps to be downloaded:'' st) (beatmapsets st)) 0 evs)"
proof -
  have "snd (case p of (st3, tries, Finished) \<Rightarrow> (g st3, tries, Finished) | (st3, tries, out) \<Rightarrow> (st3, tries, out)) = snd p"
    for p :: "state \<times> nat \<times> outcome" and g
    by (cases p; cases "snd (snd p)"; simp)
  then show ?thesis by (simp add: run_def Let_def)
qed

lemma success_step:
  assumes ne: "beatmapsets st \<noteq> []" and wf: "is_set (beatmapsets st)"
      and ok: "status_code (reply ok) = 200"
      and w: "\<forall>b\<in>set (beatmapsets st). writable py (fs st) (BeatmapSet_str b) (reply ok)"
  shows "run_loop py st t (ok # evs) = run_loop py (after_success py st ok) 0 evs"
    and "Suc (length (beatmapsets (after_success py st ok))) = length (beatmapsets st)"
    and "is_set (beatmapsets (after_success py st ok))"
proof -
  from set_pop_props(1) [OF ne, of "pick ok"] w
  have "writable py (fs st) (BeatmapSet_str (fst (set_pop (pick ok) (beatmapsets st)))) (reply ok)"
    by blast
  then have "snd (download_beatmapset_file py (st\<lparr>beatmapsets := snd (set_pop (pick ok) (beatmapsets st))\<rparr>)
                 (fst (set_pop (pick ok) (beatmapsets st))) (reply ok)) = Inr True"
    using ok by (simp add: download_True_iff)
  then show "run_loop py st t (ok # evs) = run_loop py (after_success py st ok) 0 evs"
    by (rule run_loop_success [OF ne])
  show "Suc (length (beatmapsets (after_success py st ok))) = length (beatmapsets st)"
    using set_pop_props(3) [OF ne] by (simp add: after_success_beatmapsets)
  show "is_set (beatmapsets (after_success py st ok))"
    using set_pop_props(4) [OF ne wf] by (simp add: after_success_beatmapsets)
qed

lemma counter_run_loop:
  assumes wf: "is_set (beatmapsets st)" and ne: "beatmapsets st \<noteq> []"
      and fails: "\<forall>ev\<in>set fails. status_code (reply ev) \<noteq> 200"
      and t: "t + length fails \<le> 4"
      and ok: "status_code (reply ok) = 200"
      and w: "\<forall>b\<in>set (beatmapsets st). writable py (fs st) (BeatmapSet_str b) (reply ok)"
      and bad: "status_code (reply bad) \<noteq> 200"
  shows "snd (run_loop py st t fails) = (t + length fails, Pending)"
    and "fst (snd (run_loop py st t (fails @ [ok]))) = 0"
    and "2 \<le> length (beatmapsets st) \<Longrightarrow> snd (run_loop py st t (fails @ [ok, bad])) = (1, Pending)"
proof -
  let ?st4 = "foldl (after_failure py) st fails"
  note p4 = streak_props [OF ne wf fails, of py]
  from p4 have ne4: "beatmapsets ?st4 \<noteq> []" and wf4: "is_set (beatmapsets ?st4)" by simp_all
  from p4 w have w4: "\<forall>b\<in>set (beatmapsets ?st4). writable py (fs ?st4) (BeatmapSet_str b) (reply ok)"
    by simp
  have run4: "run_loop py st t (fails @ xs) = run_loop py ?st4 (t + length fails) xs" for xs
    by (rule failure_streak [OF ne wf fails t])
  note s = success_step [OF ne4 wf4 ok w4]
  let ?st5 = "after_success py ?st4 ok"
  show "snd (run_loop py st t fails) = (t + length fails, Pending)"
    using run4 [of "[]"] ne4 by simp
  show "fst (snd (run_loop py st t (fails @ [ok]))) = 0"
    using run4 [of "[ok]"] s(1) [of "t + length fails" "[]"] by simp
  assume "2 \<le> length (beatmapsets st)"
  with p4 s(2) have ne5: "beatmapsets ?st5 \<noteq> []" by auto
  have "run_loop py ?st5 0 [bad] = run_loop py (after_failure py ?st5 bad) 1 []"
    using run_loop_failure [OF ne5 bad, of py 0 "[]"] by simp
  moreover have "beatmapsets (after_failure py ?st5 bad) \<noteq> []"
    using after_failure_props(4) [OF ne5 s(3) bad] .
  ultimately have "snd (run_loop py ?st5 0 [bad]) = (1, Pending)" by simp
  then show "snd (run_loop py st t (fails @ [ok, bad])) = (1, Pending)"
    using run4 [of "[ok, bad]"] s(1) [of "t + length fails" "[bad]"] by simp
qed

text \<open>
  C4. The counter \<open>tries\<close> of the download loop is 0 when \<open>run\<close> enters the loop; each
  failed download of a streak adds one to it (after \<open>n\<close> failures from \<open>t\<close> it is
  \<open>t + n\<close>, the loop still running while that is at most 4); the first successful
  download after the streak sets it to 0; and a failure after that success makes it
  1, in particular after four failures and one success.
\<close>
theorem failure_counter:
  assumes "is_set (beatmapsets st)" and "beatmapsets st \<noteq> []"
      and "\<forall>ev\<in>set fails. status_code (reply ev) \<noteq> 200"
      and "t + length fails \<le> 4"
      and "status_code (reply ok) = 200"
      and "\<forall>b\<in>set (beatmapsets st). writable py (fs st) (BeatmapSet_str b) (reply ok)"
      and "status_code (reply bad) \<noteq> 200"
  shows "fst (snd (run py st [])) = 0
       \<and> snd (run py st fails) = (length fails, Pending)
       \<and> snd (run_loop py st t fails) = (t + length fails, Pending)
       \<and> fst (snd (run_loop py st t (fails @ [ok]))) = 0
       \<and> fst (snd (run py st (fails @ [ok]))) = 0
       \<and> (2 \<le> length (beatmapsets st) \<longrightarrow>
            snd (run_loop py st t (fails @ [ok, bad])) = (1, Pending)
            \<and> snd (run py st (fails @ [ok, bad])) = (1, Pending))"
proof -
  let ?pre = "foldl (\<lambda>acc b. logger INFO (BeatmapSet_str b) acc)
                (logger INFO ''List of beatmaps to be downloaded:'' st) (beatmapsets st)"
  have pre: "beatmapsets ?pre = beatmapsets st" "fs ?pre = fs st"
    using listing_fields [of INFO BeatmapSet_str "logger INFO ''List of beatmaps to be downloaded:'' st" "beatmapsets st"]
    by simp_all
  from assms(4) have t0: "0 + length fails \<le> 4" by simp
  note a = counter_run_loop [OF assms(1-7)]
  note b = counter_run_loop [of ?pre fails 0 ok py bad, unfolded pre, OF assms(1-3) t0 assms(5-7)]
  have "fst (snd (run py st [])) = 0"
    by (simp add: run_tries)
  with a b show ?thesis
    by (simp add: run_tries)
qed

theorem failure_counter_witness:
  "is_set (beatmapsets example_state2)
   \<and> list_all (\<lambda>ev. status_code (reply ev) \<noteq> 200) (replicate 4 failed_reply)
   \<and> list_all (\<lambda>b. writable ascii_builtins (fs example_state2) (BeatmapSet_str b) (reply good_reply))
        (beatmapsets example_state2)
   \<and> 2 \<le> length (beatmapsets example_state2)
   \<and> snd (run_loop ascii_builtins example_state2 0 (replicate 4 failed_reply)) = (4, Pending)
   \<and> fst (snd (run_loop ascii_builtins example_state2 0 (replicate 4 failed_reply @ [good_reply]))) = 0
   \<and> snd (run ascii_builtins example_state2 (replicate 4 failed_reply @ [good_reply, failed_reply]))
        = (1, Pending)"
proof -
  have h: "is_set (beatmapsets example_state2)" "beatmapsets example_state2 \<noteq> []"
    "\<forall>ev\<in>set (replicate 4 failed_reply). status_code (reply ev) \<noteq> 200"
    "0 + length (replicate 4 failed_reply) \<le> 4"
    "status_code (reply good_reply) = 200"
    "\<forall>b\<in>set (beatmapsets example_state2).
        writable ascii_builtins (fs example_state2) (BeatmapSet_str b) (reply good_reply)"
    "status_code (reply failed_reply) \<noteq> 200"
    by (simp_all add: example_state2_def example_state_def example_set_def example_set2_def
        is_set_def failed_reply_def good_reply_def writable_def ascii_builtins_def is_digit_def
        digits_value_def isdir_def true_div_overflows_def)
  have l: "2 \<le> length (beatmapsets example_state2)"
    by (simp add: example_state2_def)
  from failure_counter [OF h] h l show ?thesis
    by (simp add: list_all_iff)
qed

subsection \<open>Filtering existing artifacts\<close>

lemma sub_no_illegal: "c \<in> set (ILLEGAL_CHARS_sub s) \<Longrightarrow> c \<notin> set ILLEGAL_CHARS"
  by (auto simp: ILLEGAL_CHARS_sub_def ILLEGAL_CHARS_def)

lemma BeatmapSet_str_nonempty: "BeatmapSet_str b \<noteq> []"
  by (simp add: BeatmapSet_str_def ILLEGAL_CHARS_sub_def)

lemma BeatmapSet_str_hd: "hd (BeatmapSet_str b) \<noteq> CHR ''/''"
proof -
  have "hd (BeatmapSet_str b) \<in> set (BeatmapSet_str b)"
    using BeatmapSet_str_nonempty by simp
  then have "hd (BeatmapSet_str b) \<notin> set ILLEGAL_CHARS"
    unfolding BeatmapSet_str_def by (rule sub_no_illegal)
  then show ?thesis by (auto simp: ILLEGAL_CHARS_def)
qed

lemma download_path:
  "os_path_join DOWNLOAD_PATH (BeatmapSet_str b) = ''./Downloads/'' @ BeatmapSet_str b"
  "os_path_join DOWNLOAD_PATH (BeatmapSet_str b @ ''.osz'') = ''./Downloads/'' @ BeatmapSet_str b @ ''.osz''"
  using BeatmapSet_str_hd [of b] BeatmapSet_str_nonempty [of b]
  by (simp_all add: os_path_join_def DOWNLOAD_PATH_def)

lemma has_artifact_paths:
  "has_artifact f b =
     (f (''./Downloads/'' @ BeatmapSet_str b) = Some Dir
      \<or> (\<exists>c. f (''./Downloads/'' @ BeatmapSet_str b @ ''.osz'') = Some (File c)))"
  unfolding has_artifact_def Let_def download_path isdir_def isfile_def
  by (auto split: option.splits node.splits)

lemma filter_loop_spec:
  assumes "distinct (map oid (acc @ ws))"
  shows "filter_loop st acc ws =
           (st\<lparr>log := log st @ map (\<lambda>b. (INFO, ''Beatmapset already downloaded: '' @ BeatmapSet_str b))
                                   (filter (has_artifact (fs st)) ws)\<rparr>,
            acc @ filter (\<lambda>b. \<not> has_artifact (fs st) b) ws)"
  using assms
proof (induction ws arbitrary: st acc)
  case Nil
  then show ?case by simp
next
  case (Cons b ws)
  show ?case
  proof (cases "has_artifact (fs st) b")
    case True
    from Cons.prems have d: "distinct (map oid (acc @ ws))" by simp
    show ?thesis
      using True Cons.IH [OF d, of "logger INFO (''Beatmapset already downloaded: '' @ BeatmapSet_str b) st"]
      by (simp add: logger_def)
  next
    case False
    from Cons.prems have fresh: "oid b \<notin> oid ` set acc" by auto
    from Cons.prems have d: "distinct (map oid ((acc @ [b]) @ ws))" by simp
    show ?thesis
      using False Cons.IH [OF d, of st] by (simp add: set_add_fresh [OF fresh])
  qed
qed

lemma remove_existing_spec:
  assumes "is_set (beatmapsets st)"
  shows "remove_existing_beatmapsets st =
           st\<lparr>log := log st @ map (\<lambda>b. (INFO, ''Beatmapset already downloaded: '' @ BeatmapSet_str b))
                                  (filter (has_artifact (fs st)) (beatmapsets st)),
              beatmapsets := filter (\<lambda>b. \<not> has_artifact (fs st) b) (beatmapsets st)\<rparr>"
  using filter_loop_spec [of "[]" "beatmapsets st" st] assms
  by (simp add: remove_existing_beatmapsets_def is_set_def)

text \<open>
  C6. For a Working Set of \<open>N\<close> records of which exactly \<open>M\<close> have an artifact in the
  download directory (a directory \<open>./Downloads/<canonical name>\<close> or a file
  \<open>./Downloads/<canonical name>.osz\<close>), \<open>remove_existing_beatmapsets\<close> leaves exactly
  the \<open>N - M\<close> records without one, logs one entry for each record it drops, and
  changes neither the files nor anything else of the state.
\<close>
theorem existing_artifact_filter:
  assumes "is_set (beatmapsets st)"
      and "length (beatmapsets st) = N"
      and "length (filter (has_artifact (fs st)) (beatmapsets st)) = M"
  shows "M \<le> N
       \<and> beatmapsets (remove_existing_beatmapsets st)
           = filter (\<lambda>b. \<not> has_artifact (fs st) b) (beatmapsets st)
       \<and> set (beatmapsets (remove_existing_beatmapsets st))
           = {b \<in> set (beatmapsets st). \<not> has_artifact (fs st) b}
       \<and> length (beatmapsets (remove_existing_beatmapsets st)) = N - M
       \<and> is_set (beatmapsets (remove_existing_beatmapsets st))
       \<and> fs (remove_existing_beatmapsets st) = fs st
       \<and> requests (remove_existing_beatmapsets st) = requests st
       \<and> creds_file (remove_existing_beatmapsets st) = creds_file st
       \<and> length (log (remove_existing_beatmapsets st)) = length (log st) + M
       \<and> (\<forall>b. has_artifact (fs st) b =
               (fs st (''./Downloads/'' @ BeatmapSet_str b) = Some Dir
                \<or> (\<exists>c. fs st (''./Downloads/'' @ BeatmapSet_str b @ ''.osz'') = Some (File c))))"
proof -
  note r = remove_existing_spec [OF assms(1)]
  have sum: "length (filter (has_artifact (fs st)) (beatmapsets st))
             + length (filter (\<lambda>b. \<not> has_artifact (fs st) b) (beatmapsets st)) = length (beatmapsets st)"
    by (rule sum_length_filter_compl)
  have "M \<le> N" using sum assms(2,3) by simp
  moreover have "length (beatmapsets (remove_existing_beatmapsets st)) = N - M"
    using sum assms(2,3) by (simp add: r)
  moreover have "is_set (beatmapsets (remove_existing_beatmapsets st))"
    using assms(1) by (simp add: r is_set_def distinct_map_filter)
  moreover have "length (log (remove_existing_beatmapsets st)) = length (log st) + M"
    using assms(3) by (simp add: r)
  ultimately show ?thesis
    using has_artifact_paths by (simp add: r)
qed

theorem existing_artifact_filter_witness:
  "is_set (beatmapsets (example_state2\<lparr>fs := example_disk\<rparr>))
   \<and> length (beatmapsets (example_state2\<lparr>fs := example_disk\<rparr>)) = 2
   \<and> length (filter (has_artifact example_disk) (beatmapsets (example_state2\<lparr>fs := example_disk\<rparr>))) = 1
   \<and> beatmapsets (remove_existing_beatmapsets (example_state2\<lparr>fs := example_disk\<rparr>)) = [example_set2]
   \<and> length (beatmapsets (remove_existing_beatmapsets (example_state2\<lparr>fs := example_disk\<rparr>))) = 2 - 1"
proof -
  have a: "has_artifact example_disk example_set" by code_simp
  have b: "\<not> has_artifact example_disk example_set2" by code_simp
  have h: "is_set (beatmapsets (example_state2\<lparr>fs := example_disk\<rparr>))"
    "length (beatmapsets (example_state2\<lparr>fs := example_disk\<rparr>)) = 2"
    "length (filter (has_artifact (fs (example_state2\<lparr>fs := example_disk\<rparr>)))
       (beatmapsets (example_state2\<lparr>fs := example_disk\<rparr>))) = 1"
    using a b
    by (simp_all add: example_state2_def example_state_def is_set_def example_set_def example_set2_def)
  from existing_artifact_filter [OF h] h a b show ?thesis
    by (simp add: example_state2_def example_state_def)
qed

subsection \<open>Success of login and download, exit status\<close>

lemma run_loop_reset:
  assumes ne: "beatmapsets st \<noteq> []"
      and ok: "status_code (reply ev) = 200"
      and w: "snd (write_beatmapset_file py st
                (BeatmapSet_str (fst (set_pop (pick ev) (beatmapsets st)))) (reply ev)) = Inr ()"
  shows "run_loop py st tries (ev # evs) = run_loop py (after_success py st ev) 0 evs"
    and "fst (snd (run_loop py st tries [ev])) = 0"
proof -
  from w have "writable py (fs st) (BeatmapSet_str (fst (set_pop (pick ev) (beatmapsets st)))) (reply ev)"
    by (simp add: write_ok_iff)
  then have d: "snd (download_beatmapset_file py (st\<lparr>beatmapsets := snd (set_pop (pick ev) (beatmapsets st))\<rparr>)
                 (fst (set_pop (pick ev) (beatmapsets st))) (reply ev)) = Inr True"
    using ok by (simp add: download_True_iff)
  show "run_loop py st tries (ev # evs) = run_loop py (after_success py st ev) 0 evs" for evs
    by (rule run_loop_success [OF ne d])
  from this [of "[]"] show "fst (snd (run_loop py st tries [ev])) = 0"
    by simp
qed

lemma run_loop_no_reset:
  assumes ne: "beatmapsets st \<noteq> []" and bad: "status_code (reply ev) \<noteq> 200"
  shows "fst (snd (run_loop py st tries [ev])) = Suc tries"
  using run_loop_failure [OF ne bad, where evs = "[]" and py = py and tries = tries] by simp

text \<open>
  C5 (as the code has it). Success is the status being equal to \<open>requests.codes.ok\<close>,
  that is 200, not any 2xx status. Once the token is extracted, \<open>login\<close> returns iff
  the login status is 200. \<open>download_beatmapset_file\<close> returns \<open>False\<close> iff the status
  is not 200, and then leaves the files alone; it returns \<open>True\<close> iff the status is 200
  and \<open>write_beatmapset_file\<close> does not raise, and then the output file holds the body.
  In the download loop such a success sets the counter \<open>tries\<close> to 0, whatever it was,
  and the loop goes on with the record consumed; a reply with another status makes
  the counter one more.
\<close>
theorem success_is_status_200:
  "(homepage_token e \<noteq> None \<longrightarrow> (snd (login e st0) = Inr ()) = (login_status e = 200))
   \<and> (snd (download_beatmapset_file py st b r) = Inr False) = (status_code r \<noteq> 200)
   \<and> (status_code r \<noteq> 200 \<longrightarrow> fs (fst (download_beatmapset_file py st b r)) = fs st)
   \<and> (snd (download_beatmapset_file py st b r) = Inr True)
       = (status_code r = 200 \<and> snd (write_beatmapset_file py st (BeatmapSet_str b) r) = Inr ())
   \<and> (snd (download_beatmapset_file py st b r) = Inr True \<longrightarrow>
        fs (fst (download_beatmapset_file py st b r)) (''./Downloads/'' @ BeatmapSet_str b @ ''.osz'')
          = Some (File (concat (chunks r))))
   \<and> (beatmapsets st \<noteq> [] \<and> status_code (reply ev) = 200
        \<and> snd (write_beatmapset_file py st
                (BeatmapSet_str (fst (set_pop (pick ev) (beatmapsets st)))) (reply ev)) = Inr () \<longrightarrow>
        run_loop py st tries (ev # evs) = run_loop py (after_success py st ev) 0 evs
        \<and> fst (snd (run_loop py st tries [ev])) = 0)
   \<and> (beatmapsets st \<noteq> [] \<and> status_code (reply ev) \<noteq> 200 \<longrightarrow>
        fst (snd (run_loop py st tries [ev])) = Suc tries)"
proof -
  have a: "(homepage_token e \<noteq> None \<longrightarrow> (snd (login e st0) = Inr ()) = (login_status e = 200))
   \<and> (snd (download_beatmapset_file py st b r) = Inr False) = (status_code r \<noteq> 200)
   \<and> (status_code r \<noteq> 200 \<longrightarrow> fs (fst (download_beatmapset_file py st b r)) = fs st)
   \<and> (snd (download_beatmapset_file py st b r) = Inr True)
       = (status_code r = 200 \<and> snd (write_beatmapset_file py st (BeatmapSet_str b) r) = Inr ())
   \<and> (snd (download_beatmapset_file py st b r) = Inr True \<longrightarrow>
        fs (fst (download_beatmapset_file py st b r)) (''./Downloads/'' @ BeatmapSet_str b @ ''.osz'')
          = Some (File (concat (chunks r))))"
    using download_True_file [of py st b r] download_failed_fields(2) [of r py st b]
    by (auto simp: login_ok_iff download_False_iff download_True_iff write_ok_iff download_path)
  have b: "beatmapsets st \<noteq> [] \<and> status_code (reply ev) = 200
        \<and> snd (write_beatmapset_file py st
                (BeatmapSet_str (fst (set_pop (pick ev) (beatmapsets st)))) (reply ev)) = Inr () \<longrightarrow>
        run_loop py st tries (ev # evs) = run_loop py (after_success py st ev) 0 evs
        \<and> fst (snd (run_loop py st tries [ev])) = 0"
    using run_loop_reset by blast
  have c: "beatmapsets st \<noteq> [] \<and> status_code (reply ev) \<noteq> 200 \<longrightarrow>
        fst (snd (run_loop py st tries [ev])) = Suc tries"
    using run_loop_no_reset by blast
  from a b c show ?thesis by blast
qed

theorem success_is_status_200_witness:
  "homepage_token example_env \<noteq> None \<and> login_status example_env = 200
   \<and> snd (login example_env example_state) = Inr ()
   \<and> status_code (reply good_reply) = 200
   \<and> snd (download_beatmapset_file ascii_builtins example_state example_set (reply good_reply)) = Inr True
   \<and> fs (fst (download_beatmapset_file ascii_builtins example_state example_set (reply good_reply)))
        (''./Downloads/'' @ BeatmapSet_str example_set @ ''.osz'') = Some (File ''abc'')
   \<and> status_code (reply failed_reply) \<noteq> 200
   \<and> snd (download_beatmapset_file ascii_builtins example_state example_set (reply failed_reply)) = Inr False
   \<and> beatmapsets example_state \<noteq> []
   \<and> fst (snd (run_loop ascii_builtins example_state 4 [good_reply])) = 0
   \<and> fst (snd (run_loop ascii_builtins example_state 2 [failed_reply])) = 3"
proof -
  have w: "snd (write_beatmapset_file ascii_builtins example_state f (reply good_reply)) = Inr ()" for f
    by (simp add: write_ok_iff writable_def good_reply_def ascii_builtins_def is_digit_def
        digits_value_def isdir_def true_div_overflows_def example_state_def)
  have h: "homepage_token example_env \<noteq> None" "login_status example_env = 200"
    "status_code (reply good_reply) = 200" "status_code (reply failed_reply) \<noteq> 200"
    "concat (chunks (reply good_reply)) = ''abc''" "beatmapsets example_state \<noteq> []"
    by (simp_all add: example_env_def good_reply_def failed_reply_def example_state_def)
  from success_is_status_200 [of example_env example_state ascii_builtins example_state example_set
         "reply good_reply" good_reply 4 "[]"]
    success_is_status_200 [of example_env example_state ascii_builtins example_state example_set
         "reply failed_reply" failed_reply 2 "[]"]
    w h
  show ?thesis by simp
qed

theorem success_2xx_counterexample:
  "200 \<le> login_status (example_env\<lparr>login_status := 204\<rparr>)
   \<and> login_status (example_env\<lparr>login_status := 204\<rparr>) < 300
   \<and> snd (login (example_env\<lparr>login_status := 204\<rparr>) example_state) = Inl (SystemExit (Some 1))
   \<and> 200 \<le> status_code (reply no_content_reply)
   \<and> status_code (reply no_content_reply) < 300
   \<and> snd (download_beatmapset_file ascii_builtins example_state example_set (reply no_content_reply))
        = Inr False
   \<and> fs (fst (download_beatmapset_file ascii_builtins example_state example_set (reply no_content_reply)))
        (''./Downloads/'' @ BeatmapSet_str example_set @ ''.osz'') = None"
  by code_simp

text \<open>
  C3. The run of \<open>main\<close> in which the one collected record is refused five times in a
  row ends by \<open>sys.exit()\<close> without an argument: the exit status is 0, whereas a failed
  login ends by \<open>sys.exit(1)\<close>.
\<close>
theorem ceiling_breach_exit_status:
  "snd (main ascii_builtins example_env) = Raised (SystemExit None)
   \<and> exit_code (snd (main ascii_builtins example_env)) = Some 0
   \<and> exit_code (snd (main ascii_builtins (example_env\<lparr>login_status := 403\<rparr>))) = Some 1"
  by code_simp

subsection \<open>Numeric queries without a match\<close>

lemma find_map_miss:
  assumes "py_int py s = Some n" and "\<forall>m\<in>set ms. \<exists>i. m = Some i \<and> i \<noteq> n"
  shows "find_map py s ms = Inr False"
  using assms by (induction ms) auto

lemma scan_sets_miss:
  assumes "py_int py s = Some n"
      and "\<forall>bm\<in>set sets. \<exists>ms. js_beatmaps bm = Some ms \<and> (\<forall>m\<in>set ms. \<exists>i. m = Some i \<and> i \<noteq> n)"
  shows "scan_sets py s st False sets = (st, Inr False)"
  using assms(2)
proof (induction sets)
  case Nil
  then show ?case by simp
next
  case (Cons bm sets)
  then obtain ms where ms: "js_beatmaps bm = Some ms" "\<forall>m\<in>set ms. \<exists>i. m = Some i \<and> i \<noteq> n"
    by auto
  have "find_map py s ms = Inr False"
    by (rule find_map_miss [OF assms(1) ms(2)])
  with ms(1) Cons show ?case by simp
qed

text \<open>
  C8. A query \<open>s\<close> that \<open>isnumeric\<close> accepts (so it is neither empty nor the sentinel)
  and whose integer \<open>int(s)\<close> is the id of no beatmap of any set in the reply: the set
  \<open>beatmapsets\<close> stays as it was, the iteration issues the search request and logs
  exactly one entry, \<open>unable to find the beatmapset with ID: s\<close>, and the loop goes on
  with the next input line.
\<close>
theorem numeric_miss:
  assumes "str_isnumeric py s" and "s \<noteq> ''-1''" and "s \<noteq> []"
      and "py_int py s = Some n"
      and "search e (length (requests st)) s = Json (Some sets)"
      and "\<forall>bm\<in>set sets. \<exists>ms. js_beatmaps bm = Some ms \<and> (\<forall>m\<in>set ms. \<exists>i. m = Some i \<and> i \<noteq> n)"
  shows "query py e st s =
           (logger ERROR (''unable to find the beatmapset with ID: '' @ s)
              (send (HttpGet OSU_SEARCH_URL [(''m'', ''0''), (''q'', s), (''s'', ''any'')] []) st), Inr ())
       \<and> beatmapsets (fst (query py e st s)) = beatmapsets st
       \<and> log (fst (query py e st s)) = log st @ [(ERROR, ''unable to find the beatmapset with ID: '' @ s)]
       \<and> fs (fst (query py e st s)) = fs st
       \<and> scrape_loop py e st num (s # lines) =
           scrape_loop py e (fst (query py e st s)) (length (beatmapsets st)) lines"
proof -
  have q: "query py e st s =
           (logger ERROR (''unable to find the beatmapset with ID: '' @ s)
              (send (HttpGet OSU_SEARCH_URL [(''m'', ''0''), (''q'', s), (''s'', ''any'')] []) st), Inr ())"
    using assms(1,5) scan_sets_miss [OF assms(4,6)]
    by (simp add: query_def Let_def)
  then show ?thesis
    using assms(2,3) by simp
qed

theorem numeric_miss_witness:
  "str_isnumeric ascii_builtins ''1234'' \<and> py_int ascii_builtins ''1234'' = Some 1234
   \<and> search numeric_env (length (requests example_state)) ''1234'' = Json (Some [example_json])
   \<and> js_beatmaps example_json = Some [Some 77, Some 78]
   \<and> beatmapsets (fst (query ascii_builtins numeric_env example_state ''1234'')) = beatmapsets example_state
   \<and> log (fst (query ascii_builtins numeric_env example_state ''1234''))
        = log example_state @ [(ERROR, ''unable to find the beatmapset with ID: 1234'')]
   \<and> scrape_loop ascii_builtins numeric_env example_state 0 (''1234'' # [''-1'']) =
        (fst (query ascii_builtins numeric_env example_state ''1234''), Inr 1)"
proof -
  have h: "str_isnumeric ascii_builtins ''1234''" "''1234'' \<noteq> ''-1''" "''1234'' \<noteq> []"
    "py_int ascii_builtins ''1234'' = Some 1234"
    "search numeric_env (length (requests example_state)) ''1234'' = Json (Some [example_json])"
    "\<forall>bm\<in>set [example_json]. \<exists>ms. js_beatmaps bm = Some ms \<and> (\<forall>m\<in>set ms. \<exists>i. m = Some i \<and> i \<noteq> 1234)"
    by (simp_all add: ascii_builtins_def is_digit_def digits_value_def numeric_env_def example_env_def
        example_json_def)
  have j: "js_beatmaps example_json = Some [Some 77, Some 78]"
    by (simp add: example_json_def)
  have l: "length (beatmapsets example_state) = 1"
    by (simp add: example_state_def)
  from numeric_miss [OF h, of 0 "[''-1'']"] h(1,4,5) j l show ?thesis
    by simp
qed

subsection \<open>Identity of the collected records\<close>

lemma working_set_ok_logger [simp]: "working_set_ok (logger lv m st) = working_set_ok st"
  by (simp add: working_set_ok_def)

lemma working_set_ok_send [simp]: "working_set_ok (send r st) = working_set_ok st"
  by (simp add: working_set_ok_def)

lemma BeatmapSet_init_fst: "fst (BeatmapSet_init st d) = st\<lparr>next_oid := Suc (next_oid st)\<rparr>"
  by (simp add: BeatmapSet_init_def Let_def split: option.splits)

lemma BeatmapSet_init_Inr:
  assumes "BeatmapSet_init st d = (st', Inr b)"
  shows "st' = st\<lparr>next_oid := Suc (next_oid st)\<rparr>" and "oid b = next_oid st"
    and "js_id d = Some (set_id b)"
  using assms by (auto simp: BeatmapSet_init_def Let_def split: option.splits)

lemma BeatmapSet_init_Inl:
  assumes "BeatmapSet_init st d = (st', Inl exc)"
  shows "st' = st\<lparr>next_oid := Suc (next_oid st)\<rparr>"
  using assms BeatmapSet_init_fst [of st d] by simp

lemma add_new:
  assumes ok: "working_set_ok st" and init: "BeatmapSet_init st d = (st', Inr b)"
  shows "working_set_ok (st'\<lparr>beatmapsets := set_add (beatmapsets st') b\<rparr>)"
    and "beatmapsets (st'\<lparr>beatmapsets := set_add (beatmapsets st') b\<rparr>) = beatmapsets st @ [b]"
proof -
  note i = BeatmapSet_init_Inr [OF init]
  from ok have fresh: "oid b \<notin> oid ` set (beatmapsets st)"
    by (auto simp: working_set_ok_def i(2))
  then show ws: "beatmapsets (st'\<lparr>beatmapsets := set_add (beatmapsets st') b\<rparr>) = beatmapsets st @ [b]"
    by (simp add: i(1) set_add_fresh)
  have "next_oid (st'\<lparr>beatmapsets := set_add (beatmapsets st') b\<rparr>) = Suc (next_oid st)"
    by (simp add: i(1))
  with ok fresh ws show "working_set_ok (st'\<lparr>beatmapsets := set_add (beatmapsets st') b\<rparr>)"
    unfolding working_set_ok_def is_set_def by (auto simp: i(2) less_Suc_eq)
qed

lemma init_failed_ok:
  assumes "working_set_ok st" and "BeatmapSet_init st d = (st', Inl exc)"
  shows "working_set_ok st'"
  using assms(1) unfolding BeatmapSet_init_Inl [OF assms(2)] working_set_ok_def
  by (auto simp: less_Suc_eq)

lemma update_sets_ok:
  "working_set_ok st \<Longrightarrow> working_set_ok (fst (update_sets st sets))"
proof (induction sets arbitrary: st)
  case Nil
  then show ?case by simp
next
  case (Cons d sets)
  obtain st' r where init: "BeatmapSet_init st d = (st', r)"
    by (cases "BeatmapSet_init st d")
  show ?case
  proof (cases r)
    case (Inl exc)
    with init Cons.prems show ?thesis
      by (simp add: init_failed_ok)
  next
    case (Inr b)
    with init Cons.prems have "working_set_ok (st'\<lparr>beatmapsets := set_add (beatmapsets st') b\<rparr>)"
      by (simp add: add_new(1))
    then have "working_set_ok (fst (update_sets (st'\<lparr>beatmapsets := set_add (beatmapsets st') b\<rparr>) sets))"
      by (rule Cons.IH)
    with init Inr show ?thesis by simp
  qed
qed

lemma update_sets_grows:
  "working_set_ok st \<Longrightarrow> update_sets st sets = (st', Inr ()) \<Longrightarrow>
   map (\<lambda>b. Some (set_id b)) (beatmapsets st')
     = map (\<lambda>b. Some (set_id b)) (beatmapsets st) @ map js_id sets"
proof (induction sets arbitrary: st)
  case Nil
  then show ?case by simp
next
  case (Cons d sets)
  obtain st1 r where init: "BeatmapSet_init st d = (st1, r)"
    by (cases "BeatmapSet_init st d")
  show ?case
  proof (cases r)
    case (Inl exc)
    with init Cons.prems show ?thesis by simp
  next
    case (Inr b)
    let ?st2 = "st1\<lparr>beatmapsets := set_add (beatmapsets st1) b\<rparr>"
    from init Inr Cons.prems have ok2: "working_set_ok ?st2" and ws2: "beatmapsets ?st2 = beatmapsets st @ [b]"
      by (simp_all add: add_new)
    from init Inr Cons.prems have "update_sets ?st2 sets = (st', Inr ())" by simp
    from Cons.IH [OF ok2 this] ws2 BeatmapSet_init_Inr(3) [of st d st1 b] init Inr
    show ?thesis by simp
  qed
qed

lemma scan_sets_ok:
  "working_set_ok st \<Longrightarrow> working_set_ok (fst (scan_sets py s st chk sets))"
proof (induction sets arbitrary: st chk)
  case Nil
  then show ?case by simp
next
  case (Cons d sets)
  show ?case
  proof (cases chk)
    case True
    with Cons show ?thesis by simp
  next
    case False
    show ?thesis
    proof (cases "js_beatmaps d")
      case None
      with False Cons.prems show ?thesis by simp
    next
      case (Some ms)
      show ?thesis
      proof (cases "find_map py s ms")
        case (Inl exc)
        with False Some Cons.prems show ?thesis by simp
      next
        case (Inr found)
        show ?thesis
        proof (cases found)
          case False
          with \<open>\<not> chk\<close> Some Inr Cons show ?thesis by simp
        next
          case True
          obtain st' r where init: "BeatmapSet_init st d = (st', r)"
            by (cases "BeatmapSet_init st d")
          show ?thesis
          proof (cases r)
            case (Inl exc)
            with init True \<open>\<not> chk\<close> Some Inr Cons.prems show ?thesis
              by (simp add: init_failed_ok)
          next
            case (Inr b)
            with init Cons.prems have "working_set_ok (st'\<lparr>beatmapsets := set_add (beatmapsets st') b\<rparr>)"
              by (simp add: add_new(1))
            then have "working_set_ok (fst (scan_sets py s (st'\<lparr>beatmapsets := set_add (beatmapsets st') b\<rparr>) True sets))"
              by (rule Cons.IH)
            with init Inr True \<open>\<not> chk\<close> Some \<open>find_map py s ms = Inr found\<close> show ?thesis by simp
          qed
        qed
      qed
    qed
  qed
qed

lemma scan_sets_okD:
  "scan_sets py s st chk sets = (st', r) \<Longrightarrow> working_set_ok st \<Longrightarrow> working_set_ok st'"
  using scan_sets_ok [of st py s chk sets] by simp

lemma update_sets_okD:
  "update_sets st sets = (st', r) \<Longrightarrow> working_set_ok st \<Longrightarrow> working_set_ok st'"
  using update_sets_ok [of st sets] by simp

lemma query_ok:
  assumes "working_set_ok st"
  shows "working_set_ok (fst (query py e st s))"
  using assms
  by (auto simp: query_def Let_def update_sets_ok scan_sets_ok dest: scan_sets_okD update_sets_okD
      split: search_body.splits option.splits prod.splits sum.splits)

lemma scrape_loop_ok:
  "working_set_ok st \<Longrightarrow> working_set_ok (fst (scrape_loop py e st num lines))"
proof (induction lines arbitrary: st num)
  case Nil
  then show ?case by simp
next
  case (Cons s lines)
  obtain st' r where q: "query py e st s = (st', r)"
    by (cases "query py e st s")
  from query_ok [OF Cons.prems, of py e s] q have ok': "working_set_ok st'" by simp
  show ?case
    using Cons.prems Cons.IH [OF Cons.prems] Cons.IH [OF ok'] q ok'
    by (cases r) simp_all
qed

lemma scrape_beatmapsets_ok:
  assumes "working_set_ok st"
  shows "working_set_ok (fst (scrape_beatmapsets py e st))"
proof -
  let ?st4 = "logger INFO ''Type -1 at the last line to finish searching.''
     (logger INFO ''Search like how you do it in osu''
       (logger INFO ''Paste the beatmap ID to download one beatmap file or''
         (logger INFO ''Scraping beatmapsets!'' st)))"
  from assms have "working_set_ok ?st4" by simp
  from scrape_loop_ok [OF this, of py e 0 "console e"] show ?thesis
    by (cases "scrape_loop py e ?st4 0 (console e)"; cases "snd (scrape_loop py e ?st4 0 (console e))")
       (simp_all add: scrape_beatmapsets_def Let_def)
qed

lemma login_working_set:
  "beatmapsets (fst (login e st)) = beatmapsets st \<and> next_oid (fst (login e st)) = next_oid st"
  by (simp add: login_def get_token_def delete_credentials_def Let_def split: option.splits)

lemma Downloader_init_ok: "working_set_ok (fst (Downloader_init py e l nv))"
proof -
  let ?st0 = "\<lparr> beatmapsets = [], limit = l, no_video = nv, next_oid = 0,
                 fs = disk e, log = [], requests = [], creds_file = creds_saved e \<rparr>"
  obtain st1 r1 where lg: "login e ?st0 = (st1, r1)" by (cases "login e ?st0")
  from login_working_set [of e ?st0] lg have ok1: "working_set_ok st1"
    by (simp add: working_set_ok_def is_set_def)
  obtain st2 r2 where sc: "scrape_beatmapsets py e st1 = (st2, r2)"
    by (cases "scrape_beatmapsets py e st1")
  from scrape_beatmapsets_ok [OF ok1, of py e] sc have ok2: "working_set_ok st2" by simp
  then have "is_set (beatmapsets st2)" by (simp add: working_set_ok_def)
  from remove_existing_spec [OF this] ok2 have ok3: "working_set_ok (remove_existing_beatmapsets st2)"
    by (simp add: working_set_ok_def is_set_def distinct_map_filter)
  show ?thesis
    using lg sc ok1 ok2 ok3
    by (cases r1; cases r2) (simp_all add: Downloader_init_def)
qed

text \<open>
  C1. The Working Set is to hold no two records with the same \<open>set_id\<close>, a record
  whose \<open>set_id\<close> is there already being absorbed. The code keeps the records in a
  \<open>set()\<close>, but \<open>BeatmapSet\<close> defines neither \<open>__eq__\<close> nor \<open>__hash__\<close>, so the set
  compares objects by identity and every \<open>BeatmapSet(bmset)\<close> is a new one. With the
  query \<open>foo\<close> entered twice and the same reply (the set 5) both times, the Working
  Set that \<open>__init__\<close> leaves holds two records with \<open>set_id\<close> 5, and the run requests
  the download of set 5 twice.
\<close>
theorem duplicate_set_id_collected:
  "snd (Downloader_init ascii_builtins repeated_env 10 True) = Inr ()
   \<and> map set_id (beatmapsets (fst (Downloader_init ascii_builtins repeated_env 10 True))) = [5, 5]
   \<and> map oid (beatmapsets (fst (Downloader_init ascii_builtins repeated_env 10 True))) = [0, 1]
   \<and> snd (main ascii_builtins accepted_env) = Finished
   \<and> drop 4 (requests (fst (main ascii_builtins accepted_env)))
       = [HttpGet ''https://osu.ppy.sh/beatmapsets/5/download?noVideo=1'' []
            [(''referer'', ''https://osu.ppy.sh/beatmapsets/5'')],
          HttpGet ''https://osu.ppy.sh/beatmapsets/5/download?noVideo=1'' []
            [(''referer'', ''https://osu.ppy.sh/beatmapsets/5'')]]"
  by code_simp

subsection \<open>The limit argument\<close>

lemma relimit_fields [simp]:
  "beatmapsets (relimit l st) = beatmapsets st"
  "no_video (relimit l st) = no_video st"
  "next_oid (relimit l st) = next_oid st"
  "fs (relimit l st) = fs st"
  "log (relimit l st) = log st"
  "requests (relimit l st) = requests st"
  "creds_file (relimit l st) = creds_file st"
  by (simp_all add: relimit_def)

lemma relimit_logger: "logger lv m (relimit l st) = relimit l (logger lv m st)"
  by (simp add: relimit_def logger_def)

lemma relimit_send: "send r (relimit l st) = relimit l (send r st)"
  by (simp add: relimit_def send_def)

lemma relimit_beatmapsets: "(relimit l st)\<lparr>beatmapsets := ws\<rparr> = relimit l (st\<lparr>beatmapsets := ws\<rparr>)"
  by (simp add: relimit_def)

lemma relimit_fs: "(relimit l st)\<lparr>fs := f\<rparr> = relimit l (st\<lparr>fs := f\<rparr>)"
  by (simp add: relimit_def)

lemma relimit_delete: "delete_credentials e (relimit l st) = relimit l (delete_credentials e st)"
  by (simp add: delete_credentials_def relimit_logger) (simp add: relimit_def)

lemma relimit_login: "login e (relimit l st) = apfst (relimit l) (login e st)"
  by (simp add: login_def get_token_def Let_def relimit_logger relimit_send relimit_delete
      split: option.splits)

lemma relimit_init: "BeatmapSet_init (relimit l st) d = apfst (relimit l) (BeatmapSet_init st d)"
  by (simp add: BeatmapSet_init_def Let_def split: option.splits) (simp add: relimit_def)

lemma relimit_update_sets: "update_sets (relimit l st) sets = apfst (relimit l) (update_sets st sets)"
proof (induction sets arbitrary: st)
  case Nil
  then show ?case by simp
next
  case (Cons d sets)
  obtain st1 r where init: "BeatmapSet_init st d = (st1, r)"
    by (cases "BeatmapSet_init st d")
  then have init': "BeatmapSet_init (relimit l st) d = (relimit l st1, r)"
    by (simp add: relimit_init)
  show ?case
    using Cons.IH by (cases r) (simp_all add: init init' relimit_beatmapsets)
qed

lemma relimit_scan_sets:
  "scan_sets py s (relimit l st) chk sets = apfst (relimit l) (scan_sets py s st chk sets)"
proof (induction sets arbitrary: st chk)
  case Nil
  then show ?case by simp
next
  case (Cons d sets)
  obtain st1 r where init: "BeatmapSet_init st d = (st1, r)"
    by (cases "BeatmapSet_init st d")
  then have init': "BeatmapSet_init (relimit l st) d = (relimit l st1, r)"
    by (simp add: relimit_init)
  show ?case
    using Cons.IH
    by (cases r) (simp_all add: init init' relimit_beatmapsets split: option.splits sum.splits bool.splits)
qed

lemma relimit_query: "query py e (relimit l st) s = apfst (relimit l) (query py e st s)"
proof -
  let ?st1 = "send (HttpGet OSU_SEARCH_URL [(''m'', ''0''), (''q'', s), (''s'', ''any'')] []) st"
  show ?thesis
  proof (cases "search e (length (requests st)) s")
    case NotJson
    then show ?thesis by (simp add: query_def Let_def relimit_send)
  next
    case (Json data)
    show ?thesis
    proof (cases data)
      case None
      with Json show ?thesis by (simp add: query_def Let_def relimit_send)
    next
      case (Some sets)
      obtain st2 r where sc: "scan_sets py s ?st1 False sets = (st2, r)"
        by (cases "scan_sets py s ?st1 False sets")
      then have sc': "scan_sets py s (relimit l ?st1) False sets = (relimit l st2, r)"
        by (simp add: relimit_scan_sets)
      show ?thesis
        using Json Some sc sc'
        by (cases r) (simp_all add: query_def Let_def relimit_send relimit_update_sets relimit_logger)
    qed
  qed
qed

lemma relimit_scrape_loop:
  "scrape_loop py e (relimit l st) num lines = apfst (relimit l) (scrape_loop py e st num lines)"
proof (induction lines arbitrary: st num)
  case Nil
  then show ?case by simp
next
  case (Cons s lines)
  obtain st1 r where q: "query py e st s = (st1, r)"
    by (cases "query py e st s")
  then have q': "query py e (relimit l st) s = (relimit l st1, r)"
    by (simp add: relimit_query)
  show ?case
    using Cons.IH by (cases r) (simp_all add: q q')
qed

lemma relimit_scrape:
  "scrape_beatmapsets py e (relimit l st) = apfst (relimit l) (scrape_beatmapsets py e st)"
proof -
  let ?st4 = "logger INFO ''Type -1 at the last line to finish searching.''
     (logger INFO ''Search like how you do it in osu''
       (logger INFO ''Paste the beatmap ID to download one beatmap file or''
         (logger INFO ''Scraping beatmapsets!'' st)))"
  obtain st5 r where lp: "scrape_loop py e ?st4 0 (console e) = (st5, r)"
    by (cases "scrape_loop py e ?st4 0 (console e)")
  then have lp': "scrape_loop py e (relimit l ?st4) 0 (console e) = (relimit l st5, r)"
    by (simp add: relimit_scrape_loop)
  show ?thesis
    using lp lp' by (cases r) (simp_all add: scrape_beatmapsets_def Let_def relimit_logger)
qed

lemma relimit_filter_loop:
  "filter_loop (relimit l st) acc ws = apfst (relimit l) (filter_loop st acc ws)"
  by (induction ws arbitrary: st acc) (simp_all add: relimit_logger)

lemma relimit_remove_existing:
  "remove_existing_beatmapsets (relimit l st) = relimit l (remove_existing_beatmapsets st)"
  by (cases "filter_loop st [] (beatmapsets st)")
     (simp add: remove_existing_beatmapsets_def relimit_filter_loop relimit_beatmapsets)

lemma relimit_write:
  "write_beatmapset_file py (relimit l st) f d = apfst (relimit l) (write_beatmapset_file py st f d)"
  by (simp add: write_beatmapset_file_def Let_def relimit_logger relimit_fs split: option.splits)

lemma case_apfst_write:
  "(case apfst f p of (s, Inl e) \<Rightarrow> (s, Inl e) | (s, Inr (u::unit)) \<Rightarrow> (s, Inr True))
     = apfst f (case p of (s, Inl e) \<Rightarrow> (s, Inl e) | (s, Inr u) \<Rightarrow> (s, Inr True))"
  by (cases p; cases "snd p"; simp)

lemma relimit_download:
  "download_beatmapset_file py (relimit l st) b r = apfst (relimit l) (download_beatmapset_file py st b r)"
  by (simp add: download_beatmapset_file_def Let_def relimit_logger relimit_send relimit_write
      case_apfst_write)

lemma relimit_abort: "abort_messages (relimit l st) = relimit l (abort_messages st)"
  by (simp add: abort_messages_def relimit_logger)

lemma relimit_run_loop:
  "run_loop py (relimit l st) tries evs = apfst (relimit l) (run_loop py st tries evs)"
proof (induction evs arbitrary: st tries)
  case Nil
  then show ?case by simp
next
  case (Cons ev evs)
  obtain b rest where pop: "set_pop (pick ev) (beatmapsets st) = (b, rest)"
    by (cases "set_pop (pick ev) (beatmapsets st)")
  obtain st1 r where dl: "download_beatmapset_file py (st\<lparr>beatmapsets := rest\<rparr>) b (reply ev) = (st1, r)"
    by (cases "download_beatmapset_file py (st\<lparr>beatmapsets := rest\<rparr>) b (reply ev)")
  then have dl': "download_beatmapset_file py (relimit l (st\<lparr>beatmapsets := rest\<rparr>)) b (reply ev) = (relimit l st1, r)"
    by (simp add: relimit_download)
  show ?case
  proof (cases r)
    case (Inl exc)
    with pop dl dl' show ?thesis by (simp add: relimit_beatmapsets)
  next
    case (Inr ok)
    with pop dl dl' Cons.IH show ?thesis
      by (cases ok) (simp_all add: relimit_beatmapsets relimit_abort Let_def)
  qed
qed

lemma relimit_listing:
  "foldl (\<lambda>acc b. logger lv (f b) acc) (relimit l st) xs = relimit l (foldl (\<lambda>acc b. logger lv (f b) acc) st xs)"
  by (induction xs arbitrary: st) (simp_all add: relimit_logger)

lemma relimit_run: "run py (relimit l st) evs = apfst (relimit l) (run py st evs)"
proof -
  let ?st2 = "foldl (\<lambda>acc b. logger INFO (BeatmapSet_str b) acc)
                (logger INFO ''List of beatmaps to be downloaded:'' st) (beatmapsets st)"
  obtain st3 t out where lp: "run_loop py ?st2 0 evs = (st3, t, out)"
    by (cases "run_loop py ?st2 0 evs")
  then have lp': "run_loop py (relimit l ?st2) 0 evs = (relimit l st3, t, out)"
    by (simp add: relimit_run_loop)
  show ?thesis
    using lp lp'
    by (cases out) (simp_all add: run_def Let_def relimit_logger relimit_listing)
qed

lemma relimit_Downloader_init:
  "Downloader_init py e l nv = apfst (relimit l) (Downloader_init py e 0 nv)"
proof -
  let ?st0 = "\<lparr> beatmapsets = [], limit = 0, no_video = nv, next_oid = 0,
                 fs = disk e, log = [], requests = [], creds_file = creds_saved e \<rparr>"
  have st0: "\<lparr> beatmapsets = [], limit = l, no_video = nv, next_oid = 0,
                 fs = disk e, log = [], requests = [], creds_file = creds_saved e \<rparr> = relimit l ?st0"
    by (simp add: relimit_def)
  obtain st1 r1 where lg: "login e ?st0 = (st1, r1)" by (cases "login e ?st0")
  then have lg': "login e (relimit l ?st0) = (relimit l st1, r1)" by (simp add: relimit_login)
  obtain st2 r2 where sc: "scrape_beatmapsets py e st1 = (st2, r2)"
    by (cases "scrape_beatmapsets py e st1")
  then have sc': "scrape_beatmapsets py e (relimit l st1) = (relimit l st2, r2)"
    by (simp add: relimit_scrape)
  show ?thesis
    unfolding Downloader_init_def Let_def st0
    using lg lg' sc sc'
    by (cases r1; cases r2) (simp_all add: relimit_remove_existing)
qed

lemma relimit_program:
  "program py e l nv = apfst (relimit l) (program py e 0 nv)"
proof -
  obtain st r where i: "Downloader_init py e 0 nv = (st, r)"
    by (cases "Downloader_init py e 0 nv")
  then have i': "Downloader_init py e l nv = (relimit l st, r)"
    using relimit_Downloader_init [of py e l nv] by simp
  obtain st' t out where rn: "run py st (downloads e) = (st', t, out)"
    by (cases "run py st (downloads e)")
  then have rn': "run py (relimit l st) (downloads e) = (relimit l st', t, out)"
    by (simp add: relimit_run)
  show ?thesis
    using i i' rn rn' by (cases r) (simp_all add: program_def)
qed

text \<open>
  C9. The \<open>limit\<close> argument of the constructor is stored and never read: two runs that
  differ only in it issue the same HTTP requests, leave the same files, emit the same
  log entries and end with the same exit status; \<open>main\<close>, which passes 10, is one of
  them.
\<close>
theorem limit_has_no_effect:
  "observe (program py e l1 nv) = observe (program py e l2 nv)
   \<and> snd (program py e l1 nv) = snd (program py e l2 nv)
   \<and> beatmapsets (fst (program py e l1 nv)) = beatmapsets (fst (program py e l2 nv))
   \<and> observe (main py e) = observe (program py e l1 True)"
proof -
  have z: "observe (program py e l nv) = observe (program py e 0 nv)
        \<and> snd (program py e l nv) = snd (program py e 0 nv)
        \<and> beatmapsets (fst (program py e l nv)) = beatmapsets (fst (program py e 0 nv))" for l nv
    by (cases "program py e 0 nv") (simp add: relimit_program [of py e l nv] observe_def)
  from z [of l1 nv] z [of l2 nv] z [of 10 True] z [of l1 True] show ?thesis
    by (simp add: main_def)
qed

end
